theory Spec2Isabelle
  imports Main "HOL-Library.Word"
begin

section \<open>Private DNS configuration store: data model\<close>

text \<open>
  The validation state of a server and the private DNS mode of a network, as the
  enumerations the code switches on.
\<close>

datatype Validation = in_process | success | success_but_expired | fail | unknown_server

datatype PrivateDnsMode = OFF | OPPORTUNISTIC | STRICT

text \<open>
  A socket address: the textual form of the IP address (what \<open>ip().toString()\<close> hands to
  the observer and the listeners) and the port.
\<close>

record IPSockAddr =
  ip :: string
  port :: nat

text \<open>
  Modelled from the spec: the class DnsTlsServer (its header is not part of the sources).
  The fields are the ones \<open>PrivateDnsConfiguration::set\<close> assigns (\<open>name\<close>,
  \<open>certificate\<close>, \<open>mark\<close>) and the ones behind the accessors the code calls:
  \<open>active()\<close>, \<open>validationState()\<close>, \<open>validationMark()\<close>, \<open>setLatencyThreshold\<close>.
\<close>

record DnsTlsServer =
  ss :: IPSockAddr
  name :: string
  certificate :: string
  mark :: "32 word"
  mValidation :: Validation
  mActive :: bool
  mLatencyThreshold :: "int option"

abbreviation active :: "DnsTlsServer \<Rightarrow> bool" where
  "active server \<equiv> mActive server"

abbreviation validationState :: "DnsTlsServer \<Rightarrow> Validation" where
  "validationState server \<equiv> mValidation server"

abbreviation validationMark :: "DnsTlsServer \<Rightarrow> 32 word" where
  "validationMark server \<equiv> mark server"

definition setActive :: "bool \<Rightarrow> DnsTlsServer \<Rightarrow> DnsTlsServer" where
  "setActive val server = server\<lparr>mActive := val\<rparr>"

definition setValidationState :: "Validation \<Rightarrow> DnsTlsServer \<Rightarrow> DnsTlsServer" where
  "setValidationState val server = server\<lparr>mValidation := val\<rparr>"

definition setLatencyThreshold :: "int option \<Rightarrow> DnsTlsServer \<Rightarrow> DnsTlsServer" where
  "setLatencyThreshold val server = server\<lparr>mLatencyThreshold := val\<rparr>"

text \<open>
  Modelled from the spec: \<open>isDot()\<close> of the DoT variant, the only variant of
  IPrivateDnsServer that the code creates.
\<close>

definition isDot :: "DnsTlsServer \<Rightarrow> bool" where
  "isDot server = True"

text \<open>
  Modelled from the spec: the constructor \<open>DnsTlsServer(parsed)\<close>. A newly observed
  server starts in \<open>unknown_server\<close>; its activity flag is written by \<open>set\<close> before it
  is ever read.
\<close>

definition new_DnsTlsServer :: "IPSockAddr \<Rightarrow> DnsTlsServer" where
  "new_DnsTlsServer parsed =
     \<lparr>ss = parsed, name = [], certificate = [], mark = 0,
      mValidation = unknown_server, mActive = False, mLatencyThreshold = None\<rparr>"

text \<open>
  Modelled from the spec: the key of a server inside a network, the socket address
  together with the provider name; equality is by both fields.
\<close>

record ServerIdentity =
  sockaddr :: IPSockAddr
  provider :: string

definition ServerIdentity_of :: "DnsTlsServer \<Rightarrow> ServerIdentity" where
  "ServerIdentity_of server = \<lparr>sockaddr = ss server, provider = name server\<rparr>"

definition isForOpportunisticMode :: "ServerIdentity \<Rightarrow> bool" where
  "isForOpportunisticMode identity = (provider identity = [])"

subsection \<open>The tracker: an ordered map from identities to servers\<close>

text \<open>
  \<open>std::map\<close> is an association list in iteration order. \<open>find\<close> is \<open>map_of\<close>. The
  strict order on identities decides where a new key goes; it is a parameter \<open>lt\<close>
  of the functions that insert.
\<close>

type_synonym PrivateDnsTracker = "(ServerIdentity \<times> DnsTlsServer) list"

fun insert_entry ::
  "('k \<Rightarrow> 'k \<Rightarrow> bool) \<Rightarrow> 'k \<Rightarrow> 'v \<Rightarrow> ('k \<times> 'v) list \<Rightarrow> ('k \<times> 'v) list" where
  "insert_entry lt k v [] = [(k, v)]"
| "insert_entry lt k v ((k', v') # xs) =
     (if lt k k' then (k, v) # (k', v') # xs else (k', v') # insert_entry lt k v xs)"

definition update_entry :: "'k \<Rightarrow> ('v \<Rightarrow> 'v) \<Rightarrow> ('k \<times> 'v) list \<Rightarrow> ('k \<times> 'v) list" where
  "update_entry k f xs = map (\<lambda>(k', v). if k' = k then (k', f v) else (k', v)) xs"

text \<open>\<open>m[k] = v\<close>: overwrite the value of an existing key, insert a new key in order.\<close>

definition assign_entry ::
  "('k \<Rightarrow> 'k \<Rightarrow> bool) \<Rightarrow> 'k \<Rightarrow> 'v \<Rightarrow> ('k \<times> 'v) list \<Rightarrow> ('k \<times> 'v) list" where
  "assign_entry lt k v xs =
     (if map_of xs k = None then insert_entry lt k v xs else update_entry k (\<lambda>_. v) xs)"

subsection \<open>The shared state\<close>

text \<open>
  One row of the audit log. The time stamp of a row is not modelled.
\<close>

datatype RecordEntry = RecordEntry "32 word" ServerIdentity Validation

text \<open>
  The members guarded by the lock, followed by three traces that record what the code
  sends out: the calls made on the observer, the validation events handed to the
  listeners, and the validation threads started (identity, the copied server, network,
  revalidation flag). \<open>mObserver\<close> tells whether an observer is set. The audit log is the
  sequence of rows pushed; the eviction of old rows by the ring buffer is not modelled.
\<close>

record PrivateDnsConfiguration =
  mPrivateDnsModes :: "32 word \<rightharpoonup> PrivateDnsMode"
  mPrivateDnsTransports :: "32 word \<rightharpoonup> PrivateDnsTracker"
  mObserver :: bool
  mPrivateDnsLog :: "RecordEntry list"
  observerCalls :: "(string \<times> Validation \<times> 32 word) list"
  listenerEvents :: "(32 word \<times> string \<times> string \<times> bool) list"
  validationThreads :: "(ServerIdentity \<times> DnsTlsServer \<times> 32 word \<times> bool) list"

datatype Error =
    NetIdNotFoundInModes
  | NotOpportunisticMode
  | NetIdNotFound "32 word"
  | ServerNotFound ServerIdentity
  | ServerNotActive
  | ValidationStateMismatched
  | SocketMarkMismatched

text \<open>The value of the error number \<open>EINVAL\<close> on Linux.\<close>

definition EINVAL :: int where
  "EINVAL = 22"

section \<open>Operations\<close>

subsection \<open>Lookup, notification, state update\<close>

definition getPrivateDnsLocked ::
  "PrivateDnsConfiguration \<Rightarrow> ServerIdentity \<Rightarrow> 32 word \<Rightarrow> Error + DnsTlsServer" where
  "getPrivateDnsLocked st identity netId =
     (case mPrivateDnsTransports st netId of
        None \<Rightarrow> Inl (NetIdNotFound netId)
      | Some tracker \<Rightarrow>
          (case map_of tracker identity of
             None \<Rightarrow> Inl (ServerNotFound identity)
           | Some server \<Rightarrow> Inr server))"

text \<open>
  A write through the pointer that the lookup returns: the server stored under
  \<open>identity\<close> in the tracker of \<open>netId\<close> is replaced by \<open>f\<close> of it.
\<close>

definition modifyServer ::
  "32 word \<Rightarrow> ServerIdentity \<Rightarrow> (DnsTlsServer \<Rightarrow> DnsTlsServer) \<Rightarrow>
   PrivateDnsConfiguration \<Rightarrow> PrivateDnsConfiguration" where
  "modifyServer netId identity f st =
     (case mPrivateDnsTransports st netId of
        None \<Rightarrow> st
      | Some tracker \<Rightarrow>
          st\<lparr>mPrivateDnsTransports :=
               (mPrivateDnsTransports st)(netId \<mapsto> update_entry identity f tracker)\<rparr>)"

definition notifyValidationStateUpdate ::
  "IPSockAddr \<Rightarrow> Validation \<Rightarrow> 32 word \<Rightarrow> PrivateDnsConfiguration \<Rightarrow> PrivateDnsConfiguration" where
  "notifyValidationStateUpdate addr validation netId st =
     (if mObserver st
      then st\<lparr>observerCalls := observerCalls st @ [(ip addr, validation, netId)]\<rparr>
      else st)"

definition updateServerState ::
  "ServerIdentity \<Rightarrow> Validation \<Rightarrow> 32 word \<Rightarrow> PrivateDnsConfiguration \<Rightarrow> PrivateDnsConfiguration" where
  "updateServerState identity state netId st =
     (case getPrivateDnsLocked st identity netId of
        Inl _ \<Rightarrow> notifyValidationStateUpdate (sockaddr identity) fail netId st
      | Inr _ \<Rightarrow>
          (let st1 = modifyServer netId identity (setValidationState state) st;
               st2 = notifyValidationStateUpdate (sockaddr identity) state netId st1
           in st2\<lparr>mPrivateDnsLog := mPrivateDnsLog st2 @ [RecordEntry netId identity state]\<rparr>))"

definition needsValidation :: "DnsTlsServer \<Rightarrow> bool" where
  "needsValidation server =
     (if \<not> active server then False
      else if validationState server = unknown_server then True
      else if validationState server = fail then True
      else if validationState server = success_but_expired then True
      else False)"

text \<open>
  \<open>startValidation\<close> copies the server and starts a detached thread. The thread itself
  (probing, sleeping, retrying) runs outside this model; the trace keeps what it was
  started with.
\<close>

definition startValidation ::
  "ServerIdentity \<Rightarrow> 32 word \<Rightarrow> bool \<Rightarrow> PrivateDnsConfiguration \<Rightarrow> PrivateDnsConfiguration" where
  "startValidation identity netId isRevalidation st =
     (case getPrivateDnsLocked st identity netId of
        Inl _ \<Rightarrow> st
      | Inr server \<Rightarrow>
          st\<lparr>validationThreads :=
               validationThreads st @ [(identity, server, netId, isRevalidation)]\<rparr>)"

definition sendPrivateDnsValidationEvent ::
  "ServerIdentity \<Rightarrow> 32 word \<Rightarrow> bool \<Rightarrow> PrivateDnsConfiguration \<Rightarrow> PrivateDnsConfiguration" where
  "sendPrivateDnsValidationEvent identity netId succ st =
     st\<lparr>listenerEvents :=
          listenerEvents st @ [(netId, ip (sockaddr identity), provider identity, succ)]\<rparr>"

subsection \<open>set\<close>

text \<open>
  \<open>getaddrinfo\<close> belongs to the C library: it is the parameter \<open>gai\<close>, from the host
  and the service to an error code or the first address found.
\<close>

definition parseServer ::
  "(string \<Rightarrow> string \<Rightarrow> int + IPSockAddr) \<Rightarrow> string \<Rightarrow> IPSockAddr option" where
  "parseServer gai server =
     (case gai server ''853'' of Inl err \<Rightarrow> None | Inr parsed \<Rightarrow> Some parsed)"

text \<open>The first loop of \<open>set\<close>: the parsed servers, keyed by identity, or nothing.\<close>

fun parse_servers ::
  "(string \<Rightarrow> string \<Rightarrow> int + IPSockAddr) \<Rightarrow> (ServerIdentity \<Rightarrow> ServerIdentity \<Rightarrow> bool) \<Rightarrow>
   32 word \<Rightarrow> string \<Rightarrow> string \<Rightarrow> string list \<Rightarrow> PrivateDnsTracker \<Rightarrow> PrivateDnsTracker option" where
  "parse_servers gai lt mk nm caCert [] tmp = Some tmp"
| "parse_servers gai lt mk nm caCert (s # servers) tmp =
     (case parseServer gai s of
        None \<Rightarrow> None
      | Some parsed \<Rightarrow>
          (let server = (new_DnsTlsServer parsed)\<lparr>name := nm, certificate := caCert, mark := mk\<rparr>
           in parse_servers gai lt mk nm caCert servers
                (assign_entry lt (ServerIdentity_of server) server tmp)))"

text \<open>The second loop: add the servers that the tracker does not contain.\<close>

fun add_servers ::
  "(ServerIdentity \<Rightarrow> ServerIdentity \<Rightarrow> bool) \<Rightarrow> PrivateDnsTracker \<Rightarrow> PrivateDnsTracker \<Rightarrow>
   PrivateDnsTracker" where
  "add_servers lt [] tracker = tracker"
| "add_servers lt ((identity, server) # tmp) tracker =
     add_servers lt tmp
       (if map_of tracker identity = None then insert_entry lt identity server tracker
        else tracker)"

text \<open>
  The body of the third loop, for the tracker entry with key \<open>identity\<close>. The loop
  variable \<open>server\<close> is a reference into the tracker of \<open>netId\<close>: reading it is a
  lookup, writing it is \<open>modifyServer\<close>.
\<close>

definition set_visit ::
  "PrivateDnsTracker \<Rightarrow> 32 word \<Rightarrow> ServerIdentity \<Rightarrow>
   PrivateDnsConfiguration \<Rightarrow> PrivateDnsConfiguration" where
  "set_visit tmp netId identity st =
     (let is_active = (map_of tmp identity \<noteq> None);
          st1 = modifyServer netId identity (setActive is_active) st;
          st2 = (case getPrivateDnsLocked st1 identity netId of
                   Inl _ \<Rightarrow> st1
                 | Inr server \<Rightarrow>
                     if \<not> active server \<and> validationState server = success
                     then updateServerState identity success_but_expired netId st1
                     else st1)
      in (case getPrivateDnsLocked st2 identity netId of
            Inl _ \<Rightarrow> st2
          | Inr server \<Rightarrow>
              if needsValidation server
              then startValidation identity netId False
                     (updateServerState identity in_process netId st2)
              else st2))"

definition set_merge ::
  "(ServerIdentity \<Rightarrow> ServerIdentity \<Rightarrow> bool) \<Rightarrow> PrivateDnsTracker \<Rightarrow> 32 word \<Rightarrow>
   PrivateDnsConfiguration \<Rightarrow> PrivateDnsConfiguration" where
  "set_merge lt tmp netId st =
     (let tracker0 = (case mPrivateDnsTransports st netId of None \<Rightarrow> [] | Some t \<Rightarrow> t);
          tracker = add_servers lt tmp tracker0;
          st1 = st\<lparr>mPrivateDnsTransports := (mPrivateDnsTransports st)(netId \<mapsto> tracker)\<rparr>
      in fold (set_visit tmp netId) (map fst tracker) st1)"

text \<open>
  \<open>set\<close> takes the network id as a signed 32-bit integer and the maps are keyed by
  the unsigned integer of the same 32 bits: \<open>netId\<close> is that word.
\<close>

definition set_cfg ::
  "(string \<Rightarrow> string \<Rightarrow> int + IPSockAddr) \<Rightarrow> (ServerIdentity \<Rightarrow> ServerIdentity \<Rightarrow> bool) \<Rightarrow>
   32 word \<Rightarrow> 32 word \<Rightarrow> string list \<Rightarrow> string \<Rightarrow> string \<Rightarrow>
   PrivateDnsConfiguration \<Rightarrow> int \<times> PrivateDnsConfiguration" where
  "set_cfg gai lt netId mk servers nm caCert st =
     (case parse_servers gai lt mk nm caCert servers [] of
        None \<Rightarrow> (- EINVAL, st)
      | Some tmp \<Rightarrow>
          if nm \<noteq> [] then
            (0, set_merge lt tmp netId
                  (st\<lparr>mPrivateDnsModes := (mPrivateDnsModes st)(netId \<mapsto> STRICT)\<rparr>))
          else if tmp \<noteq> [] then
            (0, set_merge lt tmp netId
                  (st\<lparr>mPrivateDnsModes := (mPrivateDnsModes st)(netId \<mapsto> OPPORTUNISTIC)\<rparr>))
          else
            (0, st\<lparr>mPrivateDnsModes := (mPrivateDnsModes st)(netId \<mapsto> OFF),
                   mPrivateDnsTransports := (mPrivateDnsTransports st)(netId := None)\<rparr>))"

subsection \<open>getStatus, clear, requestValidation\<close>

text \<open>
  Modelled from the spec: the result type PrivateDnsStatus (declared in a header that is
  not part of the sources): a mode and a map from server identities to validation
  states. \<open>emplace\<close> leaves the map alone when the key is there already.
\<close>

record PrivateDnsStatus =
  mode :: PrivateDnsMode
  serversMap :: "ServerIdentity \<rightharpoonup> Validation"

definition emplace :: "'k \<Rightarrow> 'v \<Rightarrow> ('k \<rightharpoonup> 'v) \<Rightarrow> ('k \<rightharpoonup> 'v)" where
  "emplace k v m = (if m k = None then m(k \<mapsto> v) else m)"

fun getStatus_loop ::
  "PrivateDnsTracker \<Rightarrow> (ServerIdentity \<rightharpoonup> Validation) \<Rightarrow> (ServerIdentity \<rightharpoonup> Validation)" where
  "getStatus_loop [] m = m"
| "getStatus_loop ((_, server) # tracker) m =
     getStatus_loop tracker
       (if isDot server \<and> active server
        then emplace (ServerIdentity_of server) (validationState server) m
        else m)"

definition getStatus :: "PrivateDnsConfiguration \<Rightarrow> 32 word \<Rightarrow> PrivateDnsStatus" where
  "getStatus st netId =
     (case mPrivateDnsModes st netId of
        None \<Rightarrow> \<lparr>mode = OFF, serversMap = Map.empty\<rparr>
      | Some m \<Rightarrow>
          \<lparr>mode = m,
           serversMap =
             (case mPrivateDnsTransports st netId of
                None \<Rightarrow> Map.empty
              | Some tracker \<Rightarrow> getStatus_loop tracker Map.empty)\<rparr>)"

definition clear :: "32 word \<Rightarrow> PrivateDnsConfiguration \<Rightarrow> PrivateDnsConfiguration" where
  "clear netId st =
     st\<lparr>mPrivateDnsModes := (mPrivateDnsModes st)(netId := None),
        mPrivateDnsTransports := (mPrivateDnsTransports st)(netId := None)\<rparr>"

definition requestValidation ::
  "32 word \<Rightarrow> ServerIdentity \<Rightarrow> 32 word \<Rightarrow> PrivateDnsConfiguration \<Rightarrow>
   (Error + unit) \<times> PrivateDnsConfiguration" where
  "requestValidation netId identity mk st =
     (case mPrivateDnsModes st netId of
        None \<Rightarrow> (Inl NetIdNotFoundInModes, st)
      | Some m \<Rightarrow>
          if m \<noteq> OPPORTUNISTIC then (Inl NotOpportunisticMode, st)
          else
            (case getPrivateDnsLocked st identity netId of
               Inl e \<Rightarrow> (Inl e, st)
             | Inr server \<Rightarrow>
                 if \<not> active server then (Inl ServerNotActive, st)
                 else if validationState server \<noteq> success then (Inl ValidationStateMismatched, st)
                 else if validationMark server \<noteq> mk then (Inl SocketMarkMismatched, st)
                 else (Inr (),
                       startValidation identity netId True
                         (updateServerState identity in_process netId st))))"

subsection \<open>updateServerLatencyThreshold, setObserver\<close>

definition updateServerLatencyThreshold ::
  "ServerIdentity \<Rightarrow> int option \<Rightarrow> 32 word \<Rightarrow> PrivateDnsConfiguration \<Rightarrow>
   PrivateDnsConfiguration" where
  "updateServerLatencyThreshold identity latencyThreshold netId st =
     (case getPrivateDnsLocked st identity netId of
        Inl _ \<Rightarrow> st
      | Inr server \<Rightarrow>
          if isDot server
          then modifyServer netId identity (setLatencyThreshold latencyThreshold) st
          else st)"

definition setObserver :: "bool \<Rightarrow> PrivateDnsConfiguration \<Rightarrow> PrivateDnsConfiguration" where
  "setObserver observer st = st\<lparr>mObserver := observer\<rparr>"

subsection \<open>recordPrivateDnsValidation\<close>

definition NEEDS_REEVALUATION :: bool where
  "NEEDS_REEVALUATION = True"

definition DONT_REEVALUATE :: bool where
  "DONT_REEVALUATE = False"

definition recordPrivateDnsValidation ::
  "ServerIdentity \<Rightarrow> 32 word \<Rightarrow> bool \<Rightarrow> bool \<Rightarrow> bool \<Rightarrow> bool \<Rightarrow>
   PrivateDnsConfiguration \<Rightarrow> bool \<times> PrivateDnsConfiguration" where
  "recordPrivateDnsValidation identity netId gotAnswer isRevalidation latencyTooHigh
       maxAttemptsReached st =
     (case mPrivateDnsTransports st netId of
        None \<Rightarrow> (DONT_REEVALUATE, notifyValidationStateUpdate (sockaddr identity) fail netId st)
      | Some tracker \<Rightarrow>
          (case mPrivateDnsModes st netId of
             None \<Rightarrow>
               (DONT_REEVALUATE, notifyValidationStateUpdate (sockaddr identity) fail netId st)
           | Some m \<Rightarrow>
               (let r1 = (if gotAnswer
                          then (if \<not> latencyTooHigh then DONT_REEVALUATE else NEEDS_REEVALUATION)
                          else if m = OFF then DONT_REEVALUATE
                          else if m = OPPORTUNISTIC \<and> \<not> isRevalidation then DONT_REEVALUATE
                          else NEEDS_REEVALUATION);
                    r2 = (if maxAttemptsReached then DONT_REEVALUATE else r1);
                    gone = (case map_of tracker identity of
                              None \<Rightarrow> True
                            | Some server \<Rightarrow> \<not> active server);
                    succ = (if gone then False else gotAnswer);
                    reevaluationStatus = (if gone then DONT_REEVALUATE else r2);
                    succeededQuickly = (succ \<and> \<not> latencyTooHigh);
                    st1 = sendPrivateDnsValidationEvent identity netId succeededQuickly st;
                    st2 = (if succeededQuickly
                           then updateServerState identity success netId st1
                           else updateServerState identity
                                  (if reevaluationStatus = NEEDS_REEVALUATION
                                   then in_process else fail) netId st1)
                in (reevaluationStatus, st2))))"

section \<open>Observations used in the statements\<close>

text \<open>The server that a lookup of \<open>identity\<close> in the tracker of \<open>netId\<close> finds, if any.\<close>

definition server_at ::
  "PrivateDnsConfiguration \<Rightarrow> 32 word \<Rightarrow> ServerIdentity \<Rightarrow> DnsTlsServer option" where
  "server_at st netId identity =
     (case mPrivateDnsTransports st netId of None \<Rightarrow> None | Some tracker \<Rightarrow> map_of tracker identity)"

text \<open>The validation threads started for \<open>identity\<close> on \<open>netId\<close>, oldest first.\<close>

definition threads_for ::
  "PrivateDnsConfiguration \<Rightarrow> 32 word \<Rightarrow> ServerIdentity \<Rightarrow>
   (ServerIdentity \<times> DnsTlsServer \<times> 32 word \<times> bool) list" where
  "threads_for st netId identity =
     filter (\<lambda>(i, server, n, r). i = identity \<and> n = netId) (validationThreads st)"

text \<open>
  The identities that a call of \<open>set\<close> configures: one for each entry of \<open>servers\<close>
  that parses, all under the provider name of the call; and the server that the first
  loop of \<open>set\<close> builds for such an identity.
\<close>

definition new_identities ::
  "(string \<Rightarrow> string \<Rightarrow> int + IPSockAddr) \<Rightarrow> string \<Rightarrow> string list \<Rightarrow> ServerIdentity set" where
  "new_identities gai nm servers =
     set (map (\<lambda>parsed. \<lparr>sockaddr = parsed, provider = nm\<rparr>)
            (List.map_filter (parseServer gai) servers))"

definition configured_server :: "32 word \<Rightarrow> string \<Rightarrow> string \<Rightarrow> ServerIdentity \<Rightarrow> DnsTlsServer" where
  "configured_server mk nm caCert identity =
     (new_DnsTlsServer (sockaddr identity))\<lparr>name := nm, certificate := caCert, mark := mk\<rparr>"

text \<open>
  What one pass of the third loop of \<open>set\<close> makes of a server, given whether its identity
  is in the new list, and whether that pass starts a validation for it.
\<close>

definition visit_needs :: "bool \<Rightarrow> DnsTlsServer \<Rightarrow> bool" where
  "visit_needs a server =
     (a \<and> validationState server \<in> {unknown_server, fail, success_but_expired})"

definition visit_server :: "bool \<Rightarrow> DnsTlsServer \<Rightarrow> DnsTlsServer" where
  "visit_server a server =
     (if a then
        (if validationState server \<in> {unknown_server, fail, success_but_expired}
         then server\<lparr>mValidation := in_process, mActive := True\<rparr>
         else server\<lparr>mActive := True\<rparr>)
      else
        (if validationState server = success
         then server\<lparr>mValidation := success_but_expired, mActive := False\<rparr>
         else server\<lparr>mActive := False\<rparr>))"

text \<open>
  The representation invariant of a tracker: a key occurs once, and the server stored
  under a key has that key as its identity. Every operation keeps it (shown below).
\<close>

definition wf_tracker :: "PrivateDnsTracker \<Rightarrow> bool" where
  "wf_tracker tracker =
     (distinct (map fst tracker) \<and>
      (\<forall>(identity, server) \<in> set tracker. ServerIdentity_of server = identity))"

definition wf_store :: "PrivateDnsConfiguration \<Rightarrow> bool" where
  "wf_store st = (\<forall>n tracker. mPrivateDnsTransports st n = Some tracker \<longrightarrow> wf_tracker tracker)"

text \<open>The keys of a tracker, each with the identity of the server stored under it.\<close>

definition tracker_shape :: "PrivateDnsTracker \<Rightarrow> (ServerIdentity \<times> ServerIdentity) list" where
  "tracker_shape tracker = map (\<lambda>(identity, server). (identity, ServerIdentity_of server)) tracker"

definition store_shape ::
  "PrivateDnsConfiguration \<Rightarrow> 32 word \<Rightarrow> (ServerIdentity \<times> ServerIdentity) list option" where
  "store_shape st n = map_option tracker_shape (mPrivateDnsTransports st n)"

section \<open>Concrete inputs\<close>

text \<open>
  A resolver of numeric hosts that knows two addresses, the order on identities that
  compares the address text and then the provider name, and a store with one network
  (number 5) that tracks one server.
\<close>

definition gai_example :: "string \<Rightarrow> string \<Rightarrow> int + IPSockAddr" where
  "gai_example host service =
     (if host = ''1.1.1.1'' \<or> host = ''8.8.8.8'' then Inr \<lparr>ip = host, port = 853\<rparr>
      else Inl (- 2))"

fun lex_less :: "nat list \<Rightarrow> nat list \<Rightarrow> bool" where
  "lex_less [] [] = False"
| "lex_less [] (y # ys) = True"
| "lex_less (x # xs) [] = False"
| "lex_less (x # xs) (y # ys) = (x < y \<or> (x = y \<and> lex_less xs ys))"

definition lt_example :: "ServerIdentity \<Rightarrow> ServerIdentity \<Rightarrow> bool" where
  "lt_example a b =
     (let ia = map of_char (ip (sockaddr a)); ib = map of_char (ip (sockaddr b))
      in lex_less ia ib \<or>
         (ia = ib \<and> lex_less (map of_char (provider a)) (map of_char (provider b))))"

definition identity_example :: "string \<Rightarrow> ServerIdentity" where
  "identity_example host = \<lparr>sockaddr = \<lparr>ip = host, port = 853\<rparr>, provider = []\<rparr>"

definition server_example :: "string \<Rightarrow> Validation \<Rightarrow> bool \<Rightarrow> DnsTlsServer" where
  "server_example host v a =
     \<lparr>ss = \<lparr>ip = host, port = 853\<rparr>, name = [], certificate = ''cert'', mark = 7,
      mValidation = v, mActive = a, mLatencyThreshold = None\<rparr>"

definition state_example :: "PrivateDnsMode \<Rightarrow> PrivateDnsTracker \<Rightarrow> PrivateDnsConfiguration" where
  "state_example m tracker =
     \<lparr>mPrivateDnsModes = [5 \<mapsto> m], mPrivateDnsTransports = [5 \<mapsto> tracker],
      mObserver = True, mPrivateDnsLog = [], observerCalls = [], listenerEvents = [],
      validationThreads = []\<rparr>"

section \<open>Lookups after each operation\<close>

lemma map_of_update_entry:
  "map_of (update_entry k f xs) k' = (if k' = k then map_option f (map_of xs k) else map_of xs k')"
  by (induction xs) (auto simp: update_entry_def)

lemma map_fst_update_entry: "map fst (update_entry k f xs) = map fst xs"
  by (induction xs) (auto simp: update_entry_def)

lemma getPrivateDnsLocked_server_at:
  "getPrivateDnsLocked st identity netId = Inr server \<longleftrightarrow> server_at st netId identity = Some server"
  by (auto simp: getPrivateDnsLocked_def server_at_def split: option.splits)

lemma getPrivateDnsLocked_missing:
  "(\<exists>e. getPrivateDnsLocked st identity netId = Inl e) \<longleftrightarrow> server_at st netId identity = None"
  by (auto simp: getPrivateDnsLocked_def server_at_def split: option.splits)

lemma server_at_modifyServer:
  "server_at (modifyServer n k f st) n' k' =
     (if n' = n \<and> k' = k then map_option f (server_at st n k) else server_at st n' k')"
  by (auto simp: server_at_def modifyServer_def map_of_update_entry split: option.splits)

lemma server_at_notify [simp]:
  "server_at (notifyValidationStateUpdate a v n st) = server_at st"
  by (auto simp: server_at_def notifyValidationStateUpdate_def fun_eq_iff)

lemma server_at_updateServerState:
  "server_at (updateServerState k s n st) n' k' =
     (if n' = n \<and> k' = k then map_option (setValidationState s) (server_at st n k)
      else server_at st n' k')"
  apply (cases "getPrivateDnsLocked st k n")
  subgoal for e using getPrivateDnsLocked_missing[of st k n]
    by (auto simp: updateServerState_def)
  subgoal for server
    by (simp add: updateServerState_def Let_def server_at_modifyServer server_at_def[of "_\<lparr>mPrivateDnsLog := _\<rparr>"] server_at_def[symmetric])
  done

lemma modes_notify [simp]:
  "mPrivateDnsModes (notifyValidationStateUpdate a v n st) = mPrivateDnsModes st"
  by (simp add: notifyValidationStateUpdate_def)

lemma modes_modifyServer [simp]:
  "mPrivateDnsModes (modifyServer n k f st) = mPrivateDnsModes st"
  by (simp add: modifyServer_def split: option.splits)

lemma modes_updateServerState [simp]:
  "mPrivateDnsModes (updateServerState k s n st) = mPrivateDnsModes st"
  by (simp add: updateServerState_def Let_def split: sum.splits)

lemma modes_startValidation [simp]:
  "mPrivateDnsModes (startValidation k n r st) = mPrivateDnsModes st"
  by (simp add: startValidation_def split: sum.splits)

lemma server_at_startValidation [simp]:
  "server_at (startValidation k n r st) = server_at st"
  by (auto simp: startValidation_def server_at_def fun_eq_iff split: sum.splits)

lemma server_at_sendEvent [simp]:
  "server_at (sendPrivateDnsValidationEvent k n b st) = server_at st"
  by (auto simp: sendPrivateDnsValidationEvent_def server_at_def fun_eq_iff)

lemma parse_servers_fails:
  "\<exists>s\<in>set servers. parseServer gai s = None \<Longrightarrow>
   parse_servers gai lt mk nm caCert servers tmp = None"
  by (induction servers arbitrary: tmp) (auto simp: Let_def split: option.splits)

section \<open>The third loop of set, one server at a time\<close>

lemma visit_server_idem [simp]: "visit_server a (visit_server a server) = visit_server a server"
  by (simp add: visit_server_def)

lemma visit_needs_visit_server [simp]: "\<not> visit_needs a (visit_server a server)"
  by (simp add: visit_needs_def visit_server_def)

lemma case_getPrivateDnsLocked:
  "(case getPrivateDnsLocked st k n of Inl e \<Rightarrow> a | Inr server \<Rightarrow> b server) =
   (case server_at st n k of None \<Rightarrow> a | Some server \<Rightarrow> b server)"
  by (simp add: getPrivateDnsLocked_def server_at_def split: option.splits)

lemma threads_notify [simp]:
  "validationThreads (notifyValidationStateUpdate a v n st) = validationThreads st"
  by (simp add: notifyValidationStateUpdate_def)

lemma threads_modifyServer [simp]:
  "validationThreads (modifyServer n k f st) = validationThreads st"
  by (simp add: modifyServer_def split: option.splits)

lemma threads_updateServerState [simp]:
  "validationThreads (updateServerState k s n st) = validationThreads st"
  by (simp add: updateServerState_def Let_def split: sum.splits)

lemma threads_startValidation:
  "validationThreads (startValidation k n r st) =
     validationThreads st @
       (case server_at st n k of None \<Rightarrow> [] | Some server \<Rightarrow> [(k, server, n, r)])"
  by (simp add: startValidation_def case_getPrivateDnsLocked split: option.splits)

lemma server_at_set_visit:
  "server_at (set_visit tmp n k st) n' k' =
     (if n' = n \<and> k' = k
      then map_option (visit_server (map_of tmp k \<noteq> None)) (server_at st n k)
      else server_at st n' k')"
  by (cases "server_at st n k")
     (auto simp: set_visit_def Let_def case_getPrivateDnsLocked server_at_modifyServer
        server_at_updateServerState setActive_def setValidationState_def needsValidation_def
        visit_server_def)

lemma modes_set_visit [simp]:
  "mPrivateDnsModes (set_visit tmp n k st) = mPrivateDnsModes st"
  by (simp add: set_visit_def Let_def split: sum.splits)

lemma threads_set_visit:
  "validationThreads (set_visit tmp n k st) =
     validationThreads st @
       (case server_at st n k of
          None \<Rightarrow> []
        | Some server \<Rightarrow>
            if visit_needs (map_of tmp k \<noteq> None) server
            then [(k, visit_server (map_of tmp k \<noteq> None) server, n, False)] else [])"
  by (cases "server_at st n k")
     (auto simp: set_visit_def Let_def case_getPrivateDnsLocked server_at_modifyServer
        server_at_updateServerState setActive_def setValidationState_def needsValidation_def
        visit_server_def visit_needs_def threads_startValidation)

lemma threads_for_set_visit:
  "threads_for (set_visit tmp n x st) n' k =
     threads_for st n' k @
       (if n' = n \<and> k = x then
          (case server_at st n k of
             None \<Rightarrow> []
           | Some server \<Rightarrow>
               if visit_needs (map_of tmp k \<noteq> None) server
               then [(k, visit_server (map_of tmp k \<noteq> None) server, n, False)] else [])
        else [])"
  by (auto simp: threads_for_def threads_set_visit split: option.splits)

lemma server_at_fold_set_visit:
  "server_at (fold (set_visit tmp n) ks st) n' k =
     (if n' = n \<and> k \<in> set ks
      then map_option (visit_server (map_of tmp k \<noteq> None)) (server_at st n k)
      else server_at st n' k)"
proof (induction ks arbitrary: st)
  case Nil
  show ?case by simp
next
  case (Cons x xs)
  show ?case
    by (cases "server_at st n k") (auto simp: Cons.IH server_at_set_visit)
qed

lemma modes_fold_set_visit [simp]:
  "mPrivateDnsModes (fold (set_visit tmp n) ks st) = mPrivateDnsModes st"
  by (induction ks arbitrary: st) simp_all

lemma threads_for_fold_set_visit:
  "threads_for (fold (set_visit tmp n) ks st) n' k =
     threads_for st n' k @
       (if n' = n \<and> k \<in> set ks then
          (case server_at st n k of
             None \<Rightarrow> []
           | Some server \<Rightarrow>
               if visit_needs (map_of tmp k \<noteq> None) server
               then [(k, visit_server (map_of tmp k \<noteq> None) server, n, False)] else [])
        else [])"
proof (induction ks arbitrary: st)
  case Nil
  show ?case by simp
next
  case (Cons x xs)
  show ?case
    by (cases "server_at st n k")
       (auto simp: Cons.IH threads_for_set_visit server_at_set_visit)
qed

lemma map_of_insert_entry:
  "map_of xs k = None \<Longrightarrow> map_of (insert_entry lt k v xs) = (map_of xs)(k \<mapsto> v)"
  by (induction xs) (auto simp: fun_eq_iff split: if_splits)

lemma map_of_assign_entry: "map_of (assign_entry lt k v xs) = (map_of xs)(k \<mapsto> v)"
  by (auto simp: assign_entry_def map_of_insert_entry map_of_update_entry fun_eq_iff)

lemma insert_entry_not_Nil [simp]: "insert_entry lt k v xs \<noteq> []"
  by (cases xs) (auto split: if_splits)

lemma assign_entry_not_Nil [simp]: "assign_entry lt k v xs \<noteq> []"
  by (cases xs) (auto simp: assign_entry_def update_entry_def)

lemma map_of_add_servers:
  "map_of (add_servers lt tmp tracker) k =
     (case map_of tracker k of None \<Rightarrow> map_of tmp k | Some server \<Rightarrow> Some server)"
proof (induction tmp arbitrary: tracker)
  case Nil
  show ?case by (simp split: option.splits)
next
  case (Cons p tmp)
  obtain identity server where p: "p = (identity, server)" by (cases p)
  show ?case
    by (auto simp: p Cons.IH map_of_insert_entry split: option.splits)
qed

lemma server_at_set_merge:
  "server_at (set_merge lt tmp n st) n' k =
     (if n' = n
      then map_option (visit_server (map_of tmp k \<noteq> None))
             (case server_at st n k of None \<Rightarrow> map_of tmp k | Some server \<Rightarrow> Some server)
      else server_at st n' k)"
proof -
  define tracker where
    "tracker = add_servers lt tmp (case mPrivateDnsTransports st n of None \<Rightarrow> [] | Some t \<Rightarrow> t)"
  define st1 where
    "st1 = st\<lparr>mPrivateDnsTransports := (mPrivateDnsTransports st)(n \<mapsto> tracker)\<rparr>"
  have merge: "set_merge lt tmp n st = fold (set_visit tmp n) (map fst tracker) st1"
    by (simp add: set_merge_def tracker_def st1_def Let_def)
  have at1: "server_at st1 n' k = (if n' = n then map_of tracker k else server_at st n' k)"
    and at1n: "server_at st1 n k = map_of tracker k"
    by (simp_all add: st1_def server_at_def)
  have tr: "map_of tracker k =
              (case server_at st n k of None \<Rightarrow> map_of tmp k | Some server \<Rightarrow> Some server)"
    by (simp add: tracker_def map_of_add_servers server_at_def split: option.splits)
  have keys: "k \<in> set (map fst tracker) \<longleftrightarrow> map_of tracker k \<noteq> None"
    by (simp add: map_of_eq_None_iff)
  show ?thesis
    unfolding merge server_at_fold_set_visit keys
    by (cases "map_of tracker k") (auto simp: at1 at1n tr [symmetric])
qed

lemma modes_set_merge [simp]:
  "mPrivateDnsModes (set_merge lt tmp n st) = mPrivateDnsModes st"
  by (simp add: set_merge_def Let_def)

lemma threads_for_set_merge:
  "threads_for (set_merge lt tmp n st) n' k =
     threads_for st n' k @
       (if n' = n then
          (case (case server_at st n k of None \<Rightarrow> map_of tmp k | Some server \<Rightarrow> Some server) of
             None \<Rightarrow> []
           | Some server \<Rightarrow>
               if visit_needs (map_of tmp k \<noteq> None) server
               then [(k, visit_server (map_of tmp k \<noteq> None) server, n, False)] else [])
        else [])"
proof -
  define tracker where
    "tracker = add_servers lt tmp (case mPrivateDnsTransports st n of None \<Rightarrow> [] | Some t \<Rightarrow> t)"
  define st1 where
    "st1 = st\<lparr>mPrivateDnsTransports := (mPrivateDnsTransports st)(n \<mapsto> tracker)\<rparr>"
  have merge: "set_merge lt tmp n st = fold (set_visit tmp n) (map fst tracker) st1"
    by (simp add: set_merge_def tracker_def st1_def Let_def)
  have at1: "server_at st1 n k = map_of tracker k"
    by (simp add: st1_def server_at_def)
  have th1: "threads_for st1 n' k = threads_for st n' k"
    by (simp add: st1_def threads_for_def)
  have tr: "map_of tracker k =
              (case server_at st n k of None \<Rightarrow> map_of tmp k | Some server \<Rightarrow> Some server)"
    by (simp add: tracker_def map_of_add_servers server_at_def split: option.splits)
  have keys: "k \<in> set (map fst tracker) \<longleftrightarrow> map_of tracker k \<noteq> None"
    by (simp add: map_of_eq_None_iff)
  show ?thesis
    unfolding merge threads_for_fold_set_visit keys th1
    by (cases "map_of tracker k") (auto simp: at1 tr [symmetric])
qed

section \<open>The parsed servers and the outcome of set\<close>

lemma parse_servers_total:
  "\<forall>s\<in>set servers. parseServer gai s \<noteq> None \<Longrightarrow>
   \<exists>tmp. parse_servers gai lt mk nm caCert servers tmp0 = Some tmp \<and>
         (tmp = [] \<longleftrightarrow> servers = [] \<and> tmp0 = [])"
proof (induction servers arbitrary: tmp0)
  case Nil
  show ?case by simp
next
  case (Cons s servers)
  from Cons.prems obtain parsed where p: "parseServer gai s = Some parsed" by auto
  from Cons.prems have rest: "\<forall>s\<in>set servers. parseServer gai s \<noteq> None" by simp
  let ?server = "(new_DnsTlsServer parsed)\<lparr>name := nm, certificate := caCert, mark := mk\<rparr>"
  let ?tmp1 = "assign_entry lt (ServerIdentity_of ?server) ?server tmp0"
  from Cons.IH [OF rest, of ?tmp1] obtain tmp
    where "parse_servers gai lt mk nm caCert servers ?tmp1 = Some tmp" and "tmp \<noteq> []"
    by auto
  then show ?case
    by (simp add: p Let_def)
qed

lemma parse_servers_map_of:
  "parse_servers gai lt mk nm caCert servers tmp0 = Some tmp \<Longrightarrow>
   map_of tmp k =
     (if k \<in> new_identities gai nm servers then Some (configured_server mk nm caCert k)
      else map_of tmp0 k)"
proof (induction servers arbitrary: tmp0)
  case Nil
  then show ?case by (simp add: new_identities_def)
next
  case (Cons s servers)
  from Cons.prems obtain parsed where p: "parseServer gai s = Some parsed"
    by (auto split: option.splits)
  define server where
    "server = (new_DnsTlsServer parsed)\<lparr>name := nm, certificate := caCert, mark := mk\<rparr>"
  have ident: "ServerIdentity_of server = \<lparr>sockaddr = parsed, provider = nm\<rparr>"
    by (simp add: server_def ServerIdentity_of_def new_DnsTlsServer_def)
  have conf: "configured_server mk nm caCert \<lparr>sockaddr = parsed, provider = nm\<rparr> = server"
    by (simp add: server_def configured_server_def)
  have new: "new_identities gai nm (s # servers) =
               insert \<lparr>sockaddr = parsed, provider = nm\<rparr> (new_identities gai nm servers)"
    by (simp add: new_identities_def p)
  from Cons.prems have
    "parse_servers gai lt mk nm caCert servers
       (assign_entry lt (ServerIdentity_of server) server tmp0) = Some tmp"
    by (simp add: p Let_def server_def)
  from Cons.IH [OF this] show ?case
    by (auto simp: new ident conf map_of_assign_entry)
qed

lemma parse_servers_empty:
  "parse_servers gai lt mk nm caCert servers [] = Some tmp \<Longrightarrow>
   map_of tmp k =
     (if k \<in> new_identities gai nm servers then Some (configured_server mk nm caCert k) else None)"
  by (simp add: parse_servers_map_of)

lemma set_cfg_merge:
  assumes "parse_servers gai lt mk nm caCert servers [] = Some tmp" and "nm \<noteq> [] \<or> tmp \<noteq> []"
  shows "set_cfg gai lt netId mk servers nm caCert st =
           (0, set_merge lt tmp netId
                 (st\<lparr>mPrivateDnsModes :=
                      (mPrivateDnsModes st)(netId \<mapsto> (if nm \<noteq> [] then STRICT else OPPORTUNISTIC))\<rparr>))"
  using assms by (auto simp: set_cfg_def)

lemma set_cfg_off:
  assumes "parse_servers gai lt mk nm caCert servers [] = Some tmp" and "nm = []" and "tmp = []"
  shows "set_cfg gai lt netId mk servers nm caCert st =
           (0, st\<lparr>mPrivateDnsModes := (mPrivateDnsModes st)(netId \<mapsto> OFF),
                  mPrivateDnsTransports := (mPrivateDnsTransports st)(netId := None)\<rparr>)"
  using assms by (simp add: set_cfg_def)

lemma server_at_modes_update [simp]:
  "server_at (st\<lparr>mPrivateDnsModes := m\<rparr>) = server_at st"
  by (simp add: server_at_def fun_eq_iff)

lemma threads_for_modes_update [simp]:
  "threads_for (st\<lparr>mPrivateDnsModes := m\<rparr>) = threads_for st"
  by (simp add: threads_for_def fun_eq_iff)

lemma set_cfg_cases:
  obtains
    (invalid) "\<exists>s\<in>set servers. parseServer gai s = None"
      and "set_cfg gai lt netId mk servers nm caCert st = (- EINVAL, st)"
  | (off) "nm = []" and "servers = []"
      and "set_cfg gai lt netId mk servers nm caCert st =
             (0, st\<lparr>mPrivateDnsModes := (mPrivateDnsModes st)(netId \<mapsto> OFF),
                    mPrivateDnsTransports := (mPrivateDnsTransports st)(netId := None)\<rparr>)"
  | (merge) tmp where "parse_servers gai lt mk nm caCert servers [] = Some tmp"
      and "nm \<noteq> [] \<or> servers \<noteq> []"
      and "\<forall>s\<in>set servers. parseServer gai s \<noteq> None"
      and "set_cfg gai lt netId mk servers nm caCert st =
             (0, set_merge lt tmp netId
                   (st\<lparr>mPrivateDnsModes :=
                        (mPrivateDnsModes st)
                          (netId \<mapsto> (if nm \<noteq> [] then STRICT else OPPORTUNISTIC))\<rparr>))"
proof (cases "\<forall>s\<in>set servers. parseServer gai s \<noteq> None")
  case False
  then have bad: "\<exists>s\<in>set servers. parseServer gai s = None" by simp
  from parse_servers_fails [OF bad] have "set_cfg gai lt netId mk servers nm caCert st = (- EINVAL, st)"
    by (simp add: set_cfg_def)
  with bad show ?thesis by (rule invalid)
next
  case True
  obtain tmp where tmp: "parse_servers gai lt mk nm caCert servers [] = Some tmp"
    and nil: "tmp = [] \<longleftrightarrow> servers = []"
    using parse_servers_total [OF True, of lt mk nm caCert "[]"] by auto
  show ?thesis
  proof (cases "nm \<noteq> [] \<or> tmp \<noteq> []")
    case True
    then have "nm \<noteq> [] \<or> servers \<noteq> []" using nil by simp
    with tmp show ?thesis using \<open>\<forall>s\<in>set servers. parseServer gai s \<noteq> None\<close>
        set_cfg_merge [OF tmp True] by (rule merge)
  next
    case False
    then have o: "nm = []" "tmp = []" by simp_all
    then have "servers = []" using nil by simp
    with o(1) show ?thesis using set_cfg_off [OF tmp o] by (rule off)
  qed
qed

lemma server_at_erase:
  "server_at (st\<lparr>mPrivateDnsModes := m,
                 mPrivateDnsTransports := (mPrivateDnsTransports st)(netId := None)\<rparr>) n k =
     (if n = netId then None else server_at st n k)"
  by (simp add: server_at_def)

lemma threads_for_erase [simp]:
  "threads_for (st\<lparr>mPrivateDnsModes := m, mPrivateDnsTransports := t\<rparr>) = threads_for st"
  by (simp add: threads_for_def fun_eq_iff)

lemma server_at_set_cfg:
  assumes "\<forall>s\<in>set servers. parseServer gai s \<noteq> None" and "nm \<noteq> [] \<or> servers \<noteq> []"
  shows "server_at (snd (set_cfg gai lt netId mk servers nm caCert st)) n k =
           (if n = netId
            then map_option (visit_server (k \<in> new_identities gai nm servers))
                   (case server_at st netId k of
                      None \<Rightarrow> if k \<in> new_identities gai nm servers
                              then Some (configured_server mk nm caCert k) else None
                    | Some server \<Rightarrow> Some server)
            else server_at st n k)"
proof (cases rule: set_cfg_cases [of servers gai lt netId mk nm caCert st])
  case invalid
  with assms(1) show ?thesis by auto
next
  case off
  with assms(2) show ?thesis by simp
next
  case (merge tmp)
  show ?thesis
    by (cases "server_at st netId k")
       (simp_all add: merge(4) server_at_set_merge parse_servers_empty [OF merge(1)])
qed

lemma threads_for_set_cfg:
  assumes "\<forall>s\<in>set servers. parseServer gai s \<noteq> None" and "nm \<noteq> [] \<or> servers \<noteq> []"
  shows "threads_for (snd (set_cfg gai lt netId mk servers nm caCert st)) n k =
           threads_for st n k @
             (if n = netId then
                (case (case server_at st netId k of
                         None \<Rightarrow> if k \<in> new_identities gai nm servers
                                 then Some (configured_server mk nm caCert k) else None
                       | Some server \<Rightarrow> Some server) of
                   None \<Rightarrow> []
                 | Some server \<Rightarrow>
                     if visit_needs (k \<in> new_identities gai nm servers) server
                     then [(k, visit_server (k \<in> new_identities gai nm servers) server,
                            netId, False)]
                     else [])
              else [])"
proof (cases rule: set_cfg_cases [of servers gai lt netId mk nm caCert st])
  case invalid
  with assms(1) show ?thesis by auto
next
  case off
  with assms(2) show ?thesis by simp
next
  case (merge tmp)
  show ?thesis
    by (cases "server_at st netId k")
       (simp_all add: merge(4) threads_for_set_merge parse_servers_empty [OF merge(1)])
qed

lemma server_at_set_cfg_other:
  "n \<noteq> netId \<Longrightarrow>
   server_at (snd (set_cfg gai lt netId mk servers nm caCert st)) n k = server_at st n k"
  by (cases rule: set_cfg_cases [of servers gai lt netId mk nm caCert st])
     (simp_all add: server_at_set_merge server_at_erase)

lemma needsValidation_iff:
  "needsValidation server \<longleftrightarrow>
     active server \<and> validationState server \<in> {unknown_server, fail, success_but_expired}"
  by (simp add: needsValidation_def)

lemma set_cfg_twice:
  "server_at (snd (set_cfg gai lt netId mk servers nm caCert
                    (snd (set_cfg gai lt netId mk servers nm caCert st)))) n k =
   server_at (snd (set_cfg gai lt netId mk servers nm caCert st)) n k"
proof (cases rule: set_cfg_cases [of servers gai lt netId mk nm caCert st])
  case invalid
  then show ?thesis by simp
next
  case off
  have "parse_servers gai lt mk nm caCert servers [] = Some []"
    using off(2) by simp
  then have again: "set_cfg gai lt netId mk servers nm caCert st' =
      (0, st'\<lparr>mPrivateDnsModes := (mPrivateDnsModes st')(netId \<mapsto> OFF),
              mPrivateDnsTransports := (mPrivateDnsTransports st')(netId := None)\<rparr>)" for st'
    using off(1) by (simp add: set_cfg_def)
  show ?thesis
    by (simp add: again server_at_erase)
next
  case (merge tmp)
  show ?thesis
    unfolding server_at_set_cfg [OF merge(3,2), of lt netId mk caCert
        "snd (set_cfg gai lt netId mk servers nm caCert st)"]
    by (cases "server_at st netId k")
       (simp_all add: server_at_set_cfg [OF merge(3,2)])
qed

section \<open>The representation invariant is kept\<close>

lemma getStatus_loop_wf:
  "wf_tracker tracker \<Longrightarrow>
   getStatus_loop tracker m k =
     (case m k of
        Some v \<Rightarrow> Some v
      | None \<Rightarrow>
          (case map_of tracker k of
             None \<Rightarrow> None
           | Some server \<Rightarrow>
               if isDot server \<and> active server then Some (validationState server) else None))"
proof (induction tracker arbitrary: m)
  case Nil
  show ?case by (simp split: option.splits)
next
  case (Cons p tracker)
  obtain identity server where p: "p = (identity, server)" by (cases p)
  from Cons.prems have wf: "wf_tracker tracker"
    and ident: "ServerIdentity_of server = identity"
    and fresh: "map_of tracker identity = None"
    by (auto simp: wf_tracker_def p map_of_eq_None_iff)
  show ?case
    by (auto simp: p Cons.IH [OF wf] ident fresh emplace_def split: option.splits)
qed

lemma wf_tracker_shape:
  "wf_tracker tracker \<longleftrightarrow>
     distinct (map fst (tracker_shape tracker)) \<and>
     (\<forall>(k, i) \<in> set (tracker_shape tracker). i = k)"
  by (auto simp: wf_tracker_def tracker_shape_def comp_def case_prod_unfold)

lemma wf_store_shape:
  "wf_store st \<longleftrightarrow>
     (\<forall>n sh. store_shape st n = Some sh \<longrightarrow>
        distinct (map fst sh) \<and> (\<forall>(k, i) \<in> set sh. i = k))"
  unfolding wf_store_def store_shape_def wf_tracker_shape by fastforce

lemma wf_store_cong: "store_shape st' = store_shape st \<Longrightarrow> wf_store st' = wf_store st"
  by (simp add: wf_store_shape)

lemma tracker_shape_update_entry:
  "(\<And>server. ServerIdentity_of (f server) = ServerIdentity_of server) \<Longrightarrow>
   tracker_shape (update_entry k f tracker) = tracker_shape tracker"
  by (induction tracker) (auto simp: tracker_shape_def update_entry_def)

lemma store_shape_modifyServer:
  "(\<And>server. ServerIdentity_of (f server) = ServerIdentity_of server) \<Longrightarrow>
   store_shape (modifyServer n k f st) = store_shape st"
  by (auto simp: store_shape_def modifyServer_def tracker_shape_update_entry fun_eq_iff
      split: option.splits)

lemma store_shape_notify [simp]:
  "store_shape (notifyValidationStateUpdate a v n st) = store_shape st"
  by (simp add: store_shape_def notifyValidationStateUpdate_def fun_eq_iff)

lemma store_shape_updateServerState [simp]:
  "store_shape (updateServerState k s n st) = store_shape st"
proof -
  have "store_shape (modifyServer n k (setValidationState s) st) = store_shape st"
    by (rule store_shape_modifyServer) (simp add: setValidationState_def ServerIdentity_of_def)
  then show ?thesis
    by (simp add: updateServerState_def Let_def store_shape_def fun_eq_iff
        notifyValidationStateUpdate_def split: sum.splits)
qed

lemma store_shape_startValidation [simp]:
  "store_shape (startValidation k n r st) = store_shape st"
  by (simp add: startValidation_def store_shape_def fun_eq_iff split: sum.splits)

lemma store_shape_sendEvent [simp]:
  "store_shape (sendPrivateDnsValidationEvent k n b st) = store_shape st"
  by (simp add: sendPrivateDnsValidationEvent_def store_shape_def fun_eq_iff)

lemma store_shape_set_visit [simp]:
  "store_shape (set_visit tmp n k st) = store_shape st"
proof -
  have "store_shape (modifyServer n k (setActive a) st) = store_shape st" for a
    by (rule store_shape_modifyServer) (simp add: setActive_def ServerIdentity_of_def)
  then show ?thesis
    by (simp add: set_visit_def Let_def split: sum.splits)
qed

lemma store_shape_fold_set_visit [simp]:
  "store_shape (fold (set_visit tmp n) ks st) = store_shape st"
  by (induction ks arbitrary: st) simp_all

lemma set_insert_entry: "set (insert_entry lt k v xs) = insert (k, v) (set xs)"
  by (induction xs) (auto split: if_splits)

lemma wf_tracker_insert_entry:
  "wf_tracker xs \<Longrightarrow> map_of xs k = None \<Longrightarrow> ServerIdentity_of v = k \<Longrightarrow>
   wf_tracker (insert_entry lt k v xs)"
proof (induction xs)
  case Nil
  then show ?case by (simp add: wf_tracker_def)
next
  case (Cons p xs)
  obtain k' v' where p: "p = (k', v')" by (cases p)
  from Cons.prems have wf: "wf_tracker xs" and fresh: "map_of xs k = None" and ne: "k \<noteq> k'"
    by (auto simp: wf_tracker_def p split: if_splits)
  from Cons.IH [OF wf fresh Cons.prems(3)] Cons.prems show ?case
    by (auto simp: wf_tracker_def p set_insert_entry map_of_eq_None_iff image_iff)
qed

lemma wf_tracker_add_servers:
  "wf_tracker tracker \<Longrightarrow> \<forall>(k, s) \<in> set tmp. ServerIdentity_of s = k \<Longrightarrow>
   wf_tracker (add_servers lt tmp tracker)"
proof (induction tmp arbitrary: tracker)
  case Nil
  then show ?case by simp
next
  case (Cons p tmp)
  obtain identity server where p: "p = (identity, server)" by (cases p)
  from Cons.prems(2) have ident: "ServerIdentity_of server = identity"
    and rest: "\<forall>(k, s) \<in> set tmp. ServerIdentity_of s = k"
    by (simp_all add: p)
  have "wf_tracker (if map_of tracker identity = None
                    then insert_entry lt identity server tracker else tracker)"
    using Cons.prems(1) ident by (simp add: wf_tracker_insert_entry)
  from Cons.IH [OF this rest] show ?case
    by (simp add: p)
qed

lemma set_assign_entry: "set (assign_entry lt k v xs) \<subseteq> insert (k, v) (set xs)"
  by (auto simp: assign_entry_def set_insert_entry update_entry_def split: if_splits)

lemma parse_servers_identities:
  "parse_servers gai lt mk nm caCert servers tmp0 = Some tmp \<Longrightarrow>
   \<forall>(k, s) \<in> set tmp0. ServerIdentity_of s = k \<Longrightarrow>
   \<forall>(k, s) \<in> set tmp. ServerIdentity_of s = k"
proof (induction servers arbitrary: tmp0)
  case Nil
  then show ?case by simp
next
  case (Cons x servers)
  from Cons.prems(1) obtain parsed where p: "parseServer gai x = Some parsed"
    by (auto split: option.splits)
  let ?server = "(new_DnsTlsServer parsed)\<lparr>name := nm, certificate := caCert, mark := mk\<rparr>"
  let ?tmp1 = "assign_entry lt (ServerIdentity_of ?server) ?server tmp0"
  from Cons.prems(1) have run: "parse_servers gai lt mk nm caCert servers ?tmp1 = Some tmp"
    by (simp add: p Let_def)
  have "\<forall>(k, s) \<in> set ?tmp1. ServerIdentity_of s = k"
    using Cons.prems(2) set_assign_entry [of lt "ServerIdentity_of ?server" ?server tmp0]
    by blast
  from Cons.IH [OF run this] show ?case .
qed

lemma wf_store_set_merge:
  assumes "wf_store st" and "\<forall>(k, s) \<in> set tmp. ServerIdentity_of s = k"
  shows "wf_store (set_merge lt tmp n st)"
proof -
  define tracker where
    "tracker = add_servers lt tmp (case mPrivateDnsTransports st n of None \<Rightarrow> [] | Some t \<Rightarrow> t)"
  define st1 where
    "st1 = st\<lparr>mPrivateDnsTransports := (mPrivateDnsTransports st)(n \<mapsto> tracker)\<rparr>"
  have merge: "set_merge lt tmp n st = fold (set_visit tmp n) (map fst tracker) st1"
    by (simp add: set_merge_def tracker_def st1_def Let_def)
  have "wf_tracker (case mPrivateDnsTransports st n of None \<Rightarrow> [] | Some t \<Rightarrow> t)"
  proof (cases "mPrivateDnsTransports st n")
    case None
    then show ?thesis by (simp add: wf_tracker_def)
  next
    case (Some t)
    with assms(1) show ?thesis by (simp add: wf_store_def)
  qed
  then have "wf_tracker tracker"
    unfolding tracker_def using assms(2) by (rule wf_tracker_add_servers)
  then have "wf_store st1"
    using assms(1) by (simp add: wf_store_def st1_def)
  then show ?thesis
    by (simp add: merge wf_store_cong [of "fold (set_visit tmp n) (map fst tracker) st1" st1])
qed

lemma wf_store_modes_update [simp]: "wf_store (st\<lparr>mPrivateDnsModes := m\<rparr>) = wf_store st"
  by (simp add: wf_store_def)

lemma wf_store_set_cfg:
  assumes "wf_store st"
  shows "wf_store (snd (set_cfg gai lt netId mk servers nm caCert st))"
proof (cases rule: set_cfg_cases [of servers gai lt netId mk nm caCert st])
  case invalid
  with assms show ?thesis by simp
next
  case off
  with assms show ?thesis by (simp add: wf_store_def)
next
  case (merge tmp)
  have "\<forall>(k, s) \<in> set tmp. ServerIdentity_of s = k"
    using parse_servers_identities [OF merge(1)] by simp
  with assms show ?thesis
    by (simp add: merge(4) wf_store_set_merge)
qed

lemma wf_store_clear: "wf_store st \<Longrightarrow> wf_store (clear netId st)"
  by (simp add: wf_store_def clear_def)

lemma wf_store_requestValidation:
  "wf_store st \<Longrightarrow> wf_store (snd (requestValidation netId identity mk st))"
  by (simp add: requestValidation_def wf_store_cong [of "startValidation _ _ _ _" st]
      split: option.splits sum.splits)

lemma wf_store_recordPrivateDnsValidation:
  "wf_store st \<Longrightarrow>
   wf_store (snd (recordPrivateDnsValidation identity netId gotAnswer isRevalidation
                    latencyTooHigh maxAttemptsReached st))"
  by (simp add: recordPrivateDnsValidation_def Let_def
      wf_store_cong [of "notifyValidationStateUpdate _ _ _ _" st]
      wf_store_cong [of "updateServerState _ _ _ _" st]
      split: option.splits)

lemma wf_store_updateServerLatencyThreshold:
  "wf_store st \<Longrightarrow> wf_store (updateServerLatencyThreshold identity latencyThreshold netId st)"
proof -
  have "store_shape (modifyServer netId identity (setLatencyThreshold latencyThreshold) st) =
          store_shape st"
    by (rule store_shape_modifyServer) (simp add: setLatencyThreshold_def ServerIdentity_of_def)
  then have "wf_store (modifyServer netId identity (setLatencyThreshold latencyThreshold) st) =
               wf_store st"
    by (rule wf_store_cong)
  then show "wf_store st \<Longrightarrow> ?thesis"
    by (simp add: updateServerLatencyThreshold_def split: sum.splits)
qed

lemma wf_store_setObserver: "wf_store st \<Longrightarrow> wf_store (setObserver observer st)"
  by (simp add: wf_store_def setObserver_def)

lemma wf_store_initial:
  "wf_store \<lparr>mPrivateDnsModes = Map.empty, mPrivateDnsTransports = Map.empty, mObserver = False,
             mPrivateDnsLog = [], observerCalls = [], listenerEvents = [],
             validationThreads = []\<rparr>"
  by (simp add: wf_store_def)

section \<open>Facts about the concrete inputs\<close>

lemma parseServer_example:
  "parseServer gai_example ''1.1.1.1'' = Some \<lparr>ip = ''1.1.1.1'', port = 853\<rparr>"
  "parseServer gai_example ''8.8.8.8'' = Some \<lparr>ip = ''8.8.8.8'', port = 853\<rparr>"
  "parseServer gai_example ''dns.example'' = None"
  by (simp_all add: parseServer_def gai_example_def)

lemma new_identities_example:
  "new_identities gai_example [] [''1.1.1.1''] = {identity_example ''1.1.1.1''}"
  "new_identities gai_example [] [''8.8.8.8''] = {identity_example ''8.8.8.8''}"
  "new_identities gai_example [] [''1.1.1.1'', ''8.8.8.8''] =
     {identity_example ''1.1.1.1'', identity_example ''8.8.8.8''}"
  by (simp_all add: new_identities_def parseServer_example identity_example_def)

lemma identity_example_neq [simp]:
  "identity_example ''1.1.1.1'' \<noteq> identity_example ''8.8.8.8''"
  "identity_example ''8.8.8.8'' \<noteq> identity_example ''1.1.1.1''"
  by (simp_all add: identity_example_def)

lemma server_at_state_example: "server_at (state_example m tracker) 5 k = map_of tracker k"
  by (simp add: state_example_def server_at_def)

lemma threads_for_state_example: "threads_for (state_example m tracker) n k = []"
  by (simp add: state_example_def threads_for_def)

lemma server_example_update:
  "(server_example h v a)\<lparr>mActive := a', mValidation := v'\<rparr> = server_example h v' a'"
  "(server_example h v a)\<lparr>mValidation := v'\<rparr> = server_example h v' a"
  "(server_example h v a)\<lparr>mActive := a'\<rparr> = server_example h v a'"
  by (simp_all add: server_example_def)

lemma server_example_fields [simp]:
  "mValidation (server_example h v a) = v"
  "mActive (server_example h v a) = a"
  "certificate (server_example h v a) = ''cert''"
  "mark (server_example h v a) = 7"
  "ServerIdentity_of (server_example h v a) = identity_example h"
  by (simp_all add: server_example_def ServerIdentity_of_def identity_example_def)

section \<open>The reevaluation decision\<close>

text \<open>
  C1. In a state where the mode map and the tracker map contain \<open>netId\<close> and the tracker
  holds \<open>identity\<close> as an active server, \<open>recordPrivateDnsValidation\<close> follows the
  decision table: an answer that is not too slow returns DONT_REEVALUATE and commits
  \<open>success\<close>; no answer under OFF, or under OPPORTUNISTIC outside a revalidation,
  returns DONT_REEVALUATE and commits \<open>fail\<close>; no answer under STRICT before the
  attempts are used up returns NEEDS_REEVALUATION and commits \<open>in_process\<close>; and
  \<open>maxAttemptsReached\<close> forces DONT_REEVALUATE whatever the other inputs are.
\<close>

theorem recordPrivateDnsValidation_decision_table:
  fixes gotAnswer isRevalidation latencyTooHigh maxAttemptsReached :: bool
  assumes m: "mPrivateDnsModes st netId = Some m"
    and t: "mPrivateDnsTransports st netId = Some tracker"
    and s: "map_of tracker identity = Some server"
    and a: "active server"
  defines "res \<equiv> recordPrivateDnsValidation identity netId gotAnswer isRevalidation
                    latencyTooHigh maxAttemptsReached st"
  shows "(gotAnswer \<and> \<not> latencyTooHigh \<longrightarrow>
            fst res = DONT_REEVALUATE \<and>
            server_at (snd res) netId identity = Some (server\<lparr>mValidation := success\<rparr>)) \<and>
         (\<not> gotAnswer \<and> m = OFF \<longrightarrow>
            fst res = DONT_REEVALUATE \<and>
            server_at (snd res) netId identity = Some (server\<lparr>mValidation := fail\<rparr>)) \<and>
         (\<not> gotAnswer \<and> m = OPPORTUNISTIC \<and> \<not> isRevalidation \<longrightarrow>
            fst res = DONT_REEVALUATE \<and>
            server_at (snd res) netId identity = Some (server\<lparr>mValidation := fail\<rparr>)) \<and>
         (\<not> gotAnswer \<and> m = STRICT \<and> \<not> maxAttemptsReached \<longrightarrow>
            fst res = NEEDS_REEVALUATION \<and>
            server_at (snd res) netId identity = Some (server\<lparr>mValidation := in_process\<rparr>)) \<and>
         (maxAttemptsReached \<longrightarrow> fst res = DONT_REEVALUATE)"
proof -
  have at: "server_at st netId identity = Some server"
    using t s by (simp add: server_at_def)
  show ?thesis
    unfolding res_def recordPrivateDnsValidation_def
    using m t s a
    by (simp add: Let_def server_at_updateServerState at setValidationState_def
        NEEDS_REEVALUATION_def DONT_REEVALUATE_def)
qed

theorem recordPrivateDnsValidation_decision_table_witness:
  "(let r = recordPrivateDnsValidation (identity_example ''1.1.1.1'') 5 True False False False
              (state_example STRICT [(identity_example ''1.1.1.1'', server_example ''1.1.1.1'' in_process True)])
    in fst r = DONT_REEVALUATE \<and>
       server_at (snd r) 5 (identity_example ''1.1.1.1'') = Some (server_example ''1.1.1.1'' success True)) \<and>
   (let r = recordPrivateDnsValidation (identity_example ''1.1.1.1'') 5 False False False False
              (state_example OFF [(identity_example ''1.1.1.1'', server_example ''1.1.1.1'' in_process True)])
    in fst r = DONT_REEVALUATE \<and>
       server_at (snd r) 5 (identity_example ''1.1.1.1'') = Some (server_example ''1.1.1.1'' fail True)) \<and>
   (let r = recordPrivateDnsValidation (identity_example ''1.1.1.1'') 5 False False False False
              (state_example OPPORTUNISTIC [(identity_example ''1.1.1.1'', server_example ''1.1.1.1'' in_process True)])
    in fst r = DONT_REEVALUATE \<and>
       server_at (snd r) 5 (identity_example ''1.1.1.1'') = Some (server_example ''1.1.1.1'' fail True)) \<and>
   (let r = recordPrivateDnsValidation (identity_example ''1.1.1.1'') 5 False False False False
              (state_example STRICT [(identity_example ''1.1.1.1'', server_example ''1.1.1.1'' in_process True)])
    in fst r = NEEDS_REEVALUATION \<and>
       server_at (snd r) 5 (identity_example ''1.1.1.1'') = Some (server_example ''1.1.1.1'' in_process True)) \<and>
   (let r = recordPrivateDnsValidation (identity_example ''1.1.1.1'') 5 False False False True
              (state_example STRICT [(identity_example ''1.1.1.1'', server_example ''1.1.1.1'' in_process True)])
    in fst r = DONT_REEVALUATE)"
proof -
  let ?k = "identity_example ''1.1.1.1''"
  let ?s = "server_example ''1.1.1.1'' in_process True"
  let ?t = "[(?k, ?s)]"
  have m: "mPrivateDnsModes (state_example mo ?t) 5 = Some mo" for mo
    by (simp add: state_example_def)
  have t: "mPrivateDnsTransports (state_example mo ?t) 5 = Some ?t" for mo
    by (simp add: state_example_def)
  have s: "map_of ?t ?k = Some ?s" by simp
  have a: "active ?s" by (simp add: server_example_def)
  have upd: "?s\<lparr>mValidation := v\<rparr> = server_example ''1.1.1.1'' v True" for v
    by (simp add: server_example_def)
  show ?thesis
    using recordPrivateDnsValidation_decision_table [OF m [of STRICT] t s a, where gotAnswer = True and latencyTooHigh = False
               and isRevalidation = False and maxAttemptsReached = False]
      recordPrivateDnsValidation_decision_table [OF m [of OFF] t s a, where gotAnswer = False and latencyTooHigh = False
               and isRevalidation = False and maxAttemptsReached = False]
      recordPrivateDnsValidation_decision_table [OF m [of OPPORTUNISTIC] t s a, where gotAnswer = False and latencyTooHigh = False
               and isRevalidation = False and maxAttemptsReached = False]
      recordPrivateDnsValidation_decision_table [OF m [of STRICT] t s a, where gotAnswer = False and latencyTooHigh = False
               and isRevalidation = False and maxAttemptsReached = False]
      recordPrivateDnsValidation_decision_table [OF m [of STRICT] t s a, where gotAnswer = False and latencyTooHigh = False
               and isRevalidation = False and maxAttemptsReached = True]
    by (simp add: upd Let_def)
qed

section \<open>requestValidation\<close>

text \<open>
  C2. \<open>requestValidation\<close> returns no error exactly when the network has a mode and the
  mode is OPPORTUNISTIC, the identity is in the tracker of the network, and the server
  is active, in state \<open>success\<close> and validated under the mark passed in; in every
  other case it returns an error. When it succeeds, the server is set to \<open>in_process\<close>.
\<close>

theorem requestValidation_preconditions:
  "(fst (requestValidation netId identity mk st) = Inr ()) =
     (mPrivateDnsModes st netId = Some OPPORTUNISTIC \<and>
      (\<exists>server. server_at st netId identity = Some server \<and> active server \<and>
         validationState server = success \<and> validationMark server = mk)) \<and>
   (\<forall>server. fst (requestValidation netId identity mk st) = Inr () \<and>
       server_at st netId identity = Some server \<longrightarrow>
       server_at (snd (requestValidation netId identity mk st)) netId identity =
         Some (server\<lparr>mValidation := in_process\<rparr>))"
proof (cases "getPrivateDnsLocked st identity netId")
  case (Inl e)
  then have "server_at st netId identity = None"
    using getPrivateDnsLocked_missing by blast
  with Inl show ?thesis
    by (simp add: requestValidation_def split: option.splits)
next
  case (Inr server)
  then have at: "server_at st netId identity = Some server"
    by (simp add: getPrivateDnsLocked_server_at)
  show ?thesis
    by (simp add: requestValidation_def Inr at server_at_updateServerState
        setValidationState_def split: option.splits)
qed

theorem requestValidation_preconditions_witness:
  "fst (requestValidation 5 (identity_example ''1.1.1.1'') 7
          (state_example OPPORTUNISTIC
             [(identity_example ''1.1.1.1'', server_example ''1.1.1.1'' success True)])) = Inr () \<and>
   server_at
     (snd (requestValidation 5 (identity_example ''1.1.1.1'') 7
          (state_example OPPORTUNISTIC
             [(identity_example ''1.1.1.1'', server_example ''1.1.1.1'' success True)])))
     5 (identity_example ''1.1.1.1'') = Some (server_example ''1.1.1.1'' in_process True) \<and>
   fst (requestValidation 5 (identity_example ''1.1.1.1'') 8
          (state_example OPPORTUNISTIC
             [(identity_example ''1.1.1.1'', server_example ''1.1.1.1'' success True)])) \<noteq> Inr ()"
proof -
  let ?k = "identity_example ''1.1.1.1''"
  let ?st = "state_example OPPORTUNISTIC [(?k, server_example ''1.1.1.1'' success True)]"
  have m: "mPrivateDnsModes ?st 5 = Some OPPORTUNISTIC"
    by (simp add: state_example_def)
  have at: "server_at ?st 5 ?k = Some (server_example ''1.1.1.1'' success True)"
    by (simp add: state_example_def server_at_def)
  have upd: "(server_example ''1.1.1.1'' success True)\<lparr>mValidation := in_process\<rparr> =
               server_example ''1.1.1.1'' in_process True"
    by (simp add: server_example_def)
  have f: "mActive (server_example ''1.1.1.1'' success True) \<and>
           mValidation (server_example ''1.1.1.1'' success True) = success \<and>
           mark (server_example ''1.1.1.1'' success True) = 7"
    by (simp add: server_example_def)
  show ?thesis
    using requestValidation_preconditions [of 5 ?k 7 ?st]
      requestValidation_preconditions [of 5 ?k 8 ?st]
    by (simp add: m at upd f)
qed

section \<open>The mode chosen by set\<close>

text \<open>
  C3. When every entry of \<open>servers\<close> parses, \<open>set\<close> returns 0 and the mode of the
  network becomes STRICT if the provider name is not empty, else OPPORTUNISTIC if
  \<open>servers\<close> is not empty, else OFF. In the last case the state after the call is the
  state before it with the mode set to OFF and the tracker of the network erased:
  nothing else changed, so no validation was started.
\<close>

theorem set_mode:
  assumes "\<forall>s\<in>set servers. parseServer gai s \<noteq> None"
  shows "fst (set_cfg gai lt netId mk servers nm caCert st) = 0 \<and>
         (nm \<noteq> [] \<longrightarrow>
            mPrivateDnsModes (snd (set_cfg gai lt netId mk servers nm caCert st)) netId = Some STRICT) \<and>
         (nm = [] \<and> servers \<noteq> [] \<longrightarrow>
            mPrivateDnsModes (snd (set_cfg gai lt netId mk servers nm caCert st)) netId =
              Some OPPORTUNISTIC) \<and>
         (nm = [] \<and> servers = [] \<longrightarrow>
            snd (set_cfg gai lt netId mk servers nm caCert st) =
              st\<lparr>mPrivateDnsModes := (mPrivateDnsModes st)(netId \<mapsto> OFF),
                 mPrivateDnsTransports := (mPrivateDnsTransports st)(netId := None)\<rparr>)"
proof -
  obtain tmp where tmp: "parse_servers gai lt mk nm caCert servers [] = Some tmp"
    and nil: "tmp = [] \<longleftrightarrow> servers = []"
    using parse_servers_total [OF assms, of lt mk nm caCert "[]"] by auto
  show ?thesis
  proof (cases "nm \<noteq> [] \<or> tmp \<noteq> []")
    case True
    show ?thesis
      unfolding set_cfg_merge [OF tmp True] using True nil by auto
  next
    case False
    then have off: "nm = []" "tmp = []" by simp_all
    show ?thesis
      unfolding set_cfg_off [OF tmp off] using off nil by simp
  qed
qed

theorem set_mode_witness:
  "mPrivateDnsModes
     (snd (set_cfg gai_example lt_example 5 7 [''1.1.1.1''] ''dns.example'' ''cert''
             (state_example OFF []))) 5 = Some STRICT \<and>
   mPrivateDnsModes
     (snd (set_cfg gai_example lt_example 5 7 [''1.1.1.1''] [] ''cert''
             (state_example OFF []))) 5 = Some OPPORTUNISTIC \<and>
   set_cfg gai_example lt_example 5 7 [] [] ''cert''
     (state_example STRICT
        [(identity_example ''1.1.1.1'', server_example ''1.1.1.1'' success True)]) =
     (0, (state_example STRICT
            [(identity_example ''1.1.1.1'', server_example ''1.1.1.1'' success True)])
           \<lparr>mPrivateDnsModes := [5 \<mapsto> OFF], mPrivateDnsTransports := Map.empty\<rparr>)"
proof -
  have one: "\<forall>s\<in>set [''1.1.1.1'']. parseServer gai_example s \<noteq> None"
    by (simp add: parseServer_example)
  have none: "\<forall>s\<in>set ([] :: string list). parseServer gai_example s \<noteq> None"
    by simp
  let ?st = "state_example STRICT
        [(identity_example ''1.1.1.1'', server_example ''1.1.1.1'' success True)]"
  have m: "(mPrivateDnsModes ?st)(5 \<mapsto> OFF) = [5 \<mapsto> OFF]"
    and t: "(mPrivateDnsTransports ?st)(5 := None) = Map.empty"
    by (simp_all add: state_example_def)
  have "set_cfg gai_example lt_example 5 7 [] [] ''cert'' ?st =
          (fst (set_cfg gai_example lt_example 5 7 [] [] ''cert'' ?st),
           snd (set_cfg gai_example lt_example 5 7 [] [] ''cert'' ?st))"
    by simp
  also have "\<dots> = (0, ?st\<lparr>mPrivateDnsModes := [5 \<mapsto> OFF], mPrivateDnsTransports := Map.empty\<rparr>)"
    using set_mode [OF none, of lt_example 5 7 "[]" "''cert''" ?st] by (simp add: m t)
  finally have off: "set_cfg gai_example lt_example 5 7 [] [] ''cert'' ?st =
      (0, ?st\<lparr>mPrivateDnsModes := [5 \<mapsto> OFF], mPrivateDnsTransports := Map.empty\<rparr>)" .
  show ?thesis
    using set_mode [OF one, of lt_example 5 7 "''dns.example''" "''cert''" "state_example OFF []"]
      set_mode [OF one, of lt_example 5 7 "[]" "''cert''" "state_example OFF []"] off
    by simp
qed

section \<open>Servers that need no validation\<close>

text \<open>
  C4 as stated does not hold: \<open>set\<close> does change the state of a server in \<open>success\<close>
  when the new list leaves the server out. Network 5 tracks 1.1.1.1, active and in
  \<open>success\<close>; \<open>set\<close> with the list 8.8.8.8 leaves it inactive and in
  \<open>success_but_expired\<close>.
\<close>

theorem set_expires_success_server_counterexample:
  "server_at
     (state_example OPPORTUNISTIC
        [(identity_example ''1.1.1.1'', server_example ''1.1.1.1'' success True)])
     5 (identity_example ''1.1.1.1'') = Some (server_example ''1.1.1.1'' success True) \<and>
   server_at
     (snd (set_cfg gai_example lt_example 5 7 [''8.8.8.8''] [] ''cert''
             (state_example OPPORTUNISTIC
                [(identity_example ''1.1.1.1'', server_example ''1.1.1.1'' success True)])))
     5 (identity_example ''1.1.1.1'') = Some (server_example ''1.1.1.1'' success_but_expired False)"
proof -
  have p: "\<forall>s\<in>set [''8.8.8.8'']. parseServer gai_example s \<noteq> None"
    by (simp add: parseServer_example)
  have ne: "([] :: string) \<noteq> [] \<or> [''8.8.8.8''] \<noteq> []" by simp
  show ?thesis
    by (simp add: server_at_set_cfg [OF p ne] server_at_state_example new_identities_example
        visit_server_def server_example_update)
qed

text \<open>
  C4, amended. \<open>needsValidation\<close> holds exactly for an active server whose state is
  \<open>unknown_server\<close>, \<open>fail\<close> or \<open>success_but_expired\<close>. Consequently, for a server
  that is in \<open>success\<close> or \<open>in_process\<close> before a call of \<open>set\<close>, the call starts no
  validation for it, and if the server is still tracked afterwards its state is the
  same, with one exception: when every entry of \<open>servers\<close> parses, a server in
  \<open>success\<close> on the network of the call whose identity is not in the new list ends in
  \<open>success_but_expired\<close>.
\<close>

theorem set_keeps_validated_servers:
  "(needsValidation server \<longleftrightarrow>
      active server \<and> validationState server \<in> {unknown_server, fail, success_but_expired}) \<and>
   (server_at st n k = Some server \<and>
    (validationState server = success \<or> validationState server = in_process) \<longrightarrow>
      threads_for (snd (set_cfg gai lt netId mk servers nm caCert st)) n k = threads_for st n k \<and>
      (\<forall>server'. server_at (snd (set_cfg gai lt netId mk servers nm caCert st)) n k = Some server' \<longrightarrow>
         validationState server' =
           (if validationState server = success \<and> n = netId \<and>
               k \<notin> new_identities gai nm servers \<and>
               (\<forall>s\<in>set servers. parseServer gai s \<noteq> None)
            then success_but_expired else validationState server)))"
proof (intro conjI impI)
  show "needsValidation server \<longleftrightarrow>
      active server \<and> validationState server \<in> {unknown_server, fail, success_but_expired}"
    by (rule needsValidation_iff)
next
  assume a: "server_at st n k = Some server \<and>
    (validationState server = success \<or> validationState server = in_process)"
  then have at: "server_at st n k = Some server"
    and v: "validationState server = success \<or> validationState server = in_process"
    by simp_all
  from v have quiet: "\<not> visit_needs b server" for b
    by (auto simp: visit_needs_def)
  show "threads_for (snd (set_cfg gai lt netId mk servers nm caCert st)) n k = threads_for st n k"
  proof (cases rule: set_cfg_cases [of servers gai lt netId mk nm caCert st])
    case invalid
    then show ?thesis by simp
  next
    case off
    then show ?thesis by simp
  next
    case (merge tmp)
    show ?thesis
      using at quiet by (cases "n = netId") (simp_all add: threads_for_set_cfg [OF merge(3,2)])
  qed
next
  assume a: "server_at st n k = Some server \<and>
    (validationState server = success \<or> validationState server = in_process)"
  then have at: "server_at st n k = Some server"
    and v: "validationState server = success \<or> validationState server = in_process"
    by simp_all
  show "\<forall>server'. server_at (snd (set_cfg gai lt netId mk servers nm caCert st)) n k = Some server' \<longrightarrow>
         validationState server' =
           (if validationState server = success \<and> n = netId \<and>
               k \<notin> new_identities gai nm servers \<and>
               (\<forall>s\<in>set servers. parseServer gai s \<noteq> None)
            then success_but_expired else validationState server)"
  proof (cases rule: set_cfg_cases [of servers gai lt netId mk nm caCert st])
    case invalid
    then have "\<not> (\<forall>s\<in>set servers. parseServer gai s \<noteq> None)" by simp
    with invalid(2) at show ?thesis by simp
  next
    case off
    then show ?thesis using at by (cases "n = netId") (simp_all add: server_at_erase)
  next
    case (merge tmp)
    have eq: "server_at (snd (set_cfg gai lt netId mk servers nm caCert st)) n k =
                Some (if n = netId then visit_server (k \<in> new_identities gai nm servers) server
                      else server)"
      using at by (cases "n = netId") (simp_all add: server_at_set_cfg [OF merge(3,2)])
    have parsed: "(\<forall>s\<in>set servers. parseServer gai s \<noteq> None) = True"
      using merge(3) by simp
    show ?thesis
      unfolding eq parsed using v by (auto simp: visit_server_def)
  qed
qed

theorem set_keeps_validated_servers_witness:
  "needsValidation (server_example ''1.1.1.1'' fail True) \<and>
   \<not> needsValidation (server_example ''1.1.1.1'' success True) \<and>
   threads_for
     (snd (set_cfg gai_example lt_example 5 7 [''1.1.1.1''] [] ''cert''
             (state_example OPPORTUNISTIC
                [(identity_example ''1.1.1.1'', server_example ''1.1.1.1'' success True)])))
     5 (identity_example ''1.1.1.1'') = []"
proof -
  let ?k = "identity_example ''1.1.1.1''"
  let ?s = "server_example ''1.1.1.1'' success True"
  let ?st = "state_example OPPORTUNISTIC [(?k, ?s)]"
  have h: "server_at ?st 5 ?k = Some ?s \<and>
           (validationState ?s = success \<or> validationState ?s = in_process)"
    by (simp add: server_at_state_example)
  show ?thesis
    using h set_keeps_validated_servers [of ?s ?st 5 ?k gai_example lt_example 5 7
        "[''1.1.1.1'']" "[]" "''cert''"]
      set_keeps_validated_servers [of "server_example ''1.1.1.1'' fail True"]
    by (simp add: threads_for_state_example)
qed

section \<open>Servers dropped from and returned to the list\<close>

text \<open>
  C5. In a call of \<open>set\<close> whose servers all parse and that leaves the mode STRICT or
  OPPORTUNISTIC, a tracked server whose identity is not in the new list stays in the
  tracker with \<open>active = false\<close>, and its state goes from \<open>success\<close> to
  \<open>success_but_expired\<close> (any other state stays); a tracked server in
  \<open>success_but_expired\<close> whose identity is in the new list becomes active and
  \<open>in_process\<close>, and exactly one validation thread is started for it.
\<close>

theorem set_deactivates_and_revalidates:
  assumes "\<forall>s\<in>set servers. parseServer gai s \<noteq> None"
    and "nm \<noteq> [] \<or> servers \<noteq> []"
    and "server_at st netId k = Some server"
  shows "(k \<notin> new_identities gai nm servers \<longrightarrow>
            server_at (snd (set_cfg gai lt netId mk servers nm caCert st)) netId k =
              Some (server\<lparr>mActive := False,
                            mValidation := (if validationState server = success
                                            then success_but_expired
                                            else validationState server)\<rparr>)) \<and>
         (k \<in> new_identities gai nm servers \<and> validationState server = success_but_expired \<longrightarrow>
            server_at (snd (set_cfg gai lt netId mk servers nm caCert st)) netId k =
              Some (server\<lparr>mActive := True, mValidation := in_process\<rparr>) \<and>
            threads_for (snd (set_cfg gai lt netId mk servers nm caCert st)) netId k =
              threads_for st netId k @
                [(k, server\<lparr>mActive := True, mValidation := in_process\<rparr>, netId, False)])"
  by (simp add: server_at_set_cfg [OF assms(1,2)] threads_for_set_cfg [OF assms(1,2)] assms(3)
      visit_server_def visit_needs_def)

theorem set_deactivates_and_revalidates_witness:
  "server_at
     (snd (set_cfg gai_example lt_example 5 7 [''8.8.8.8''] [] ''cert''
             (state_example OPPORTUNISTIC
                [(identity_example ''1.1.1.1'', server_example ''1.1.1.1'' success True),
                 (identity_example ''8.8.8.8'',
                  server_example ''8.8.8.8'' success_but_expired False)])))
     5 (identity_example ''1.1.1.1'') =
     Some (server_example ''1.1.1.1'' success_but_expired False) \<and>
   server_at
     (snd (set_cfg gai_example lt_example 5 7 [''8.8.8.8''] [] ''cert''
             (state_example OPPORTUNISTIC
                [(identity_example ''1.1.1.1'', server_example ''1.1.1.1'' success True),
                 (identity_example ''8.8.8.8'',
                  server_example ''8.8.8.8'' success_but_expired False)])))
     5 (identity_example ''8.8.8.8'') =
     Some (server_example ''8.8.8.8'' in_process True) \<and>
   threads_for
     (snd (set_cfg gai_example lt_example 5 7 [''8.8.8.8''] [] ''cert''
             (state_example OPPORTUNISTIC
                [(identity_example ''1.1.1.1'', server_example ''1.1.1.1'' success True),
                 (identity_example ''8.8.8.8'',
                  server_example ''8.8.8.8'' success_but_expired False)])))
     5 (identity_example ''8.8.8.8'') =
     [(identity_example ''8.8.8.8'', server_example ''8.8.8.8'' in_process True, 5, False)]"
proof -
  let ?k1 = "identity_example ''1.1.1.1''" and ?k8 = "identity_example ''8.8.8.8''"
  let ?s1 = "server_example ''1.1.1.1'' success True"
  let ?s8 = "server_example ''8.8.8.8'' success_but_expired False"
  let ?st = "state_example OPPORTUNISTIC [(?k1, ?s1), (?k8, ?s8)]"
  have p: "\<forall>s\<in>set [''8.8.8.8'']. parseServer gai_example s \<noteq> None"
    by (simp add: parseServer_example)
  have ne: "([] :: string) \<noteq> [] \<or> [''8.8.8.8''] \<noteq> []" by simp
  have at1: "server_at ?st 5 ?k1 = Some ?s1" and at8: "server_at ?st 5 ?k8 = Some ?s8"
    by (simp_all add: server_at_state_example)
  show ?thesis
    using set_deactivates_and_revalidates [OF p ne at1, of lt_example 7 "''cert''"]
      set_deactivates_and_revalidates [OF p ne at8, of lt_example 7 "''cert''"]
    by (simp add: new_identities_example server_example_update threads_for_state_example)
qed

section \<open>set with a server that does not parse\<close>

text \<open>
  C6. When at least one entry of \<open>servers\<close> does not parse, \<open>set\<close> returns \<open>-EINVAL\<close>
  and the whole state is as it was: the mode map, every tracker, every server, the audit
  log, and nothing was sent or started.
\<close>

theorem set_unparsable_server:
  assumes "\<exists>s\<in>set servers. parseServer gai s = None"
  shows "set_cfg gai lt netId mk servers nm caCert st = (- EINVAL, st)"
  using parse_servers_fails[OF assms] by (simp add: set_cfg_def)

theorem set_unparsable_server_witness:
  "set_cfg gai_example lt_example 5 7 [''1.1.1.1'', ''dns.example''] [] ''cert''
     (state_example OPPORTUNISTIC
        [(identity_example ''8.8.8.8'', server_example ''8.8.8.8'' success True)]) =
   (- 22, state_example OPPORTUNISTIC
        [(identity_example ''8.8.8.8'', server_example ''8.8.8.8'' success True)])"
proof -
  have "parseServer gai_example ''dns.example'' = None"
    by (simp add: parseServer_def gai_example_def)
  then have "\<exists>s\<in>set [''1.1.1.1'', ''dns.example'']. parseServer gai_example s = None"
    by simp
  from set_unparsable_server [OF this] show ?thesis
    by (simp add: EINVAL_def)
qed

section \<open>set twice\<close>

text \<open>
  C7. Calling \<open>set\<close> twice in a row with the same arguments: a server that is in
  \<open>success\<close> after the first call is found unchanged after the second, so it is still
  in \<open>success\<close> and was not put back to \<open>in_process\<close>. This holds for the servers of
  every network and whatever the outcome of the calls.
\<close>

theorem set_twice_keeps_success:
  assumes "server_at (snd (set_cfg gai lt netId mk servers nm caCert st)) n k = Some server"
    and "validationState server = success"
  shows "server_at (snd (set_cfg gai lt netId mk servers nm caCert
                           (snd (set_cfg gai lt netId mk servers nm caCert st)))) n k =
           Some server"
  using assms(1) by (simp add: set_cfg_twice)

theorem set_twice_keeps_success_witness:
  "server_at
     (snd (set_cfg gai_example lt_example 5 7 [''1.1.1.1''] [] ''cert''
        (snd (set_cfg gai_example lt_example 5 7 [''1.1.1.1''] [] ''cert''
           (state_example OPPORTUNISTIC
              [(identity_example ''1.1.1.1'', server_example ''1.1.1.1'' success True)])))))
     5 (identity_example ''1.1.1.1'') = Some (server_example ''1.1.1.1'' success True)"
proof -
  let ?k = "identity_example ''1.1.1.1''"
  let ?s = "server_example ''1.1.1.1'' success True"
  let ?st = "state_example OPPORTUNISTIC [(?k, ?s)]"
  have p: "\<forall>s\<in>set [''1.1.1.1'']. parseServer gai_example s \<noteq> None"
    by (simp add: parseServer_example)
  have ne: "([] :: string) \<noteq> [] \<or> [''1.1.1.1''] \<noteq> []" by simp
  have first: "server_at (snd (set_cfg gai_example lt_example 5 7 [''1.1.1.1''] [] ''cert'' ?st))
                 5 ?k = Some ?s"
    by (simp add: server_at_set_cfg [OF p ne] server_at_state_example new_identities_example
        visit_server_def server_example_update)
  have v: "validationState ?s = success" by simp
  from set_twice_keeps_success [OF first v] show ?thesis .
qed

section \<open>getStatus\<close>

text \<open>
  C8. For a network without an entry in the mode map, \<open>getStatus\<close> returns the mode OFF
  and the empty map. For a network with a mode, in a store that satisfies the
  representation invariant, \<open>getStatus\<close> returns that mode and a map that holds, for each
  identity, the validation state of the server tracked under it when that server is
  DoT and active, and nothing otherwise.
\<close>

theorem getStatus_snapshot:
  "(mPrivateDnsModes st netId = None \<longrightarrow>
      getStatus st netId = \<lparr>mode = OFF, serversMap = Map.empty\<rparr>) \<and>
   (\<forall>m. mPrivateDnsModes st netId = Some m \<and> wf_store st \<longrightarrow>
      mode (getStatus st netId) = m \<and>
      (\<forall>identity.
         serversMap (getStatus st netId) identity =
           (case server_at st netId identity of
              None \<Rightarrow> None
            | Some server \<Rightarrow>
                if isDot server \<and> active server then Some (validationState server) else None)))"
proof (intro conjI impI allI)
  assume "mPrivateDnsModes st netId = None"
  then show "getStatus st netId = \<lparr>mode = OFF, serversMap = Map.empty\<rparr>"
    by (simp add: getStatus_def)
next
  fix m assume a: "mPrivateDnsModes st netId = Some m \<and> wf_store st"
  then show "mode (getStatus st netId) = m"
    by (simp add: getStatus_def)
next
  fix m identity assume a: "mPrivateDnsModes st netId = Some m \<and> wf_store st"
  show "serversMap (getStatus st netId) identity =
          (case server_at st netId identity of
             None \<Rightarrow> None
           | Some server \<Rightarrow>
               if isDot server \<and> active server then Some (validationState server) else None)"
  proof (cases "mPrivateDnsTransports st netId")
    case None
    with a show ?thesis by (simp add: getStatus_def server_at_def)
  next
    case (Some tracker)
    with a have "wf_tracker tracker" by (simp add: wf_store_def)
    from getStatus_loop_wf [OF this, of Map.empty identity] a Some show ?thesis
      by (simp add: getStatus_def server_at_def)
  qed
qed

theorem getStatus_snapshot_witness:
  "getStatus
     (state_example OPPORTUNISTIC
        [(identity_example ''1.1.1.1'', server_example ''1.1.1.1'' success True),
         (identity_example ''8.8.8.8'', server_example ''8.8.8.8'' in_process False)]) 6 =
     \<lparr>mode = OFF, serversMap = Map.empty\<rparr> \<and>
   mode (getStatus
     (state_example OPPORTUNISTIC
        [(identity_example ''1.1.1.1'', server_example ''1.1.1.1'' success True),
         (identity_example ''8.8.8.8'', server_example ''8.8.8.8'' in_process False)]) 5) =
     OPPORTUNISTIC \<and>
   serversMap (getStatus
     (state_example OPPORTUNISTIC
        [(identity_example ''1.1.1.1'', server_example ''1.1.1.1'' success True),
         (identity_example ''8.8.8.8'', server_example ''8.8.8.8'' in_process False)]) 5)
     (identity_example ''1.1.1.1'') = Some success \<and>
   serversMap (getStatus
     (state_example OPPORTUNISTIC
        [(identity_example ''1.1.1.1'', server_example ''1.1.1.1'' success True),
         (identity_example ''8.8.8.8'', server_example ''8.8.8.8'' in_process False)]) 5)
     (identity_example ''8.8.8.8'') = None"
proof -
  let ?k1 = "identity_example ''1.1.1.1''" and ?k8 = "identity_example ''8.8.8.8''"
  let ?s1 = "server_example ''1.1.1.1'' success True"
  let ?s8 = "server_example ''8.8.8.8'' in_process False"
  let ?st = "state_example OPPORTUNISTIC [(?k1, ?s1), (?k8, ?s8)]"
  have absent: "mPrivateDnsModes ?st 6 = None"
    and m: "mPrivateDnsModes ?st 5 = Some OPPORTUNISTIC"
    by (simp_all add: state_example_def)
  have wf: "wf_store ?st"
    by (simp add: wf_store_def wf_tracker_def state_example_def)
  have at: "server_at ?st 5 ?k1 = Some ?s1" "server_at ?st 5 ?k8 = Some ?s8"
    by (simp_all add: server_at_state_example)
  show ?thesis
    using getStatus_snapshot [of ?st 6] getStatus_snapshot [of ?st 5]
    by (simp add: absent m wf at isDot_def)
qed

section \<open>set keeps the stored server object\<close>

text \<open>
  C9. In a call of \<open>set\<close> whose servers all parse and that leaves the mode STRICT or
  OPPORTUNISTIC, an identity that the tracker already holds keeps its stored server:
  the name, the certificate and the mark of the stored server stay, and only the
  activity flag and the validation state may differ. The certificate and the mark of
  the call go to the servers of the identities that the tracker did not hold.
\<close>

theorem set_keeps_stored_server:
  assumes "\<forall>s\<in>set servers. parseServer gai s \<noteq> None"
    and "nm \<noteq> [] \<or> servers \<noteq> []"
  shows "(\<forall>server. server_at st netId k = Some server \<longrightarrow>
            (\<exists>server'. server_at (snd (set_cfg gai lt netId mk servers nm caCert st)) netId k =
                          Some server' \<and>
               server' = server\<lparr>mActive := active server',
                                mValidation := validationState server'\<rparr> \<and>
               name server' = name server \<and> certificate server' = certificate server \<and>
               mark server' = mark server)) \<and>
         (server_at st netId k = None \<and> k \<in> new_identities gai nm servers \<longrightarrow>
            (\<exists>server'. server_at (snd (set_cfg gai lt netId mk servers nm caCert st)) netId k =
                          Some server' \<and>
               ss server' = sockaddr k \<and> name server' = nm \<and>
               certificate server' = caCert \<and> mark server' = mk))"
  by (simp add: server_at_set_cfg [OF assms] visit_server_def configured_server_def
      new_DnsTlsServer_def)

theorem set_keeps_stored_server_witness:
  "(\<exists>server'.
      server_at
        (snd (set_cfg gai_example lt_example 5 9 [''1.1.1.1'', ''8.8.8.8''] [] ''other''
                (state_example OPPORTUNISTIC
                   [(identity_example ''1.1.1.1'', server_example ''1.1.1.1'' success True)])))
        5 (identity_example ''1.1.1.1'') = Some server' \<and>
      certificate server' = ''cert'' \<and> mark server' = 7) \<and>
   (\<exists>server'.
      server_at
        (snd (set_cfg gai_example lt_example 5 9 [''1.1.1.1'', ''8.8.8.8''] [] ''other''
                (state_example OPPORTUNISTIC
                   [(identity_example ''1.1.1.1'', server_example ''1.1.1.1'' success True)])))
        5 (identity_example ''8.8.8.8'') = Some server' \<and>
      certificate server' = ''other'' \<and> mark server' = 9)"
proof -
  let ?k1 = "identity_example ''1.1.1.1''" and ?k8 = "identity_example ''8.8.8.8''"
  let ?s1 = "server_example ''1.1.1.1'' success True"
  let ?st = "state_example OPPORTUNISTIC [(?k1, ?s1)]"
  have p: "\<forall>s\<in>set [''1.1.1.1'', ''8.8.8.8'']. parseServer gai_example s \<noteq> None"
    by (simp add: parseServer_example)
  have ne: "([] :: string) \<noteq> [] \<or> [''1.1.1.1'', ''8.8.8.8''] \<noteq> []" by simp
  have at1: "server_at ?st 5 ?k1 = Some ?s1" and at8: "server_at ?st 5 ?k8 = None"
    by (simp_all add: server_at_state_example)
  have new: "?k8 \<in> new_identities gai_example [] [''1.1.1.1'', ''8.8.8.8'']"
    by (simp add: new_identities_example)
  from set_keeps_stored_server [OF p ne, of ?st 5 ?k1 lt_example 9 "''other''"] at1
  obtain s' where "server_at
        (snd (set_cfg gai_example lt_example 5 9 [''1.1.1.1'', ''8.8.8.8''] [] ''other'' ?st))
        5 ?k1 = Some s'" and "certificate s' = certificate ?s1" and "mark s' = mark ?s1"
    by blast
  then have first: "\<exists>server'. server_at
        (snd (set_cfg gai_example lt_example 5 9 [''1.1.1.1'', ''8.8.8.8''] [] ''other'' ?st))
        5 ?k1 = Some server' \<and> certificate server' = ''cert'' \<and> mark server' = 7"
    by simp
  from set_keeps_stored_server [OF p ne, of ?st 5 ?k8 lt_example 9 "''other''"] at8 new
  have second: "\<exists>server'. server_at
        (snd (set_cfg gai_example lt_example 5 9 [''1.1.1.1'', ''8.8.8.8''] [] ''other'' ?st))
        5 ?k8 = Some server' \<and> certificate server' = ''other'' \<and> mark server' = 9"
    by blast
  from first second show ?thesis by blast
qed

section \<open>updateServerState on a missing network or server\<close>

text \<open>
  C10. When the lookup of \<open>identity\<close> in the tracker of \<open>netId\<close> finds nothing,
  \<open>updateServerState\<close> changes nothing but the calls made on the observer: if an
  observer is set it is told \<open>fail\<close>, whatever state was asked for; no server changes
  and the audit log gets no row. Whenever the audit log does get a row, the server was
  there, now carries the requested state, and the row is the one for this update.
\<close>

theorem updateServerState_missing_server:
  "(server_at st netId identity = None \<longrightarrow>
      updateServerState identity state netId st =
        st\<lparr>observerCalls :=
             (if mObserver st then observerCalls st @ [(ip (sockaddr identity), fail, netId)]
              else observerCalls st)\<rparr>) \<and>
   (mPrivateDnsLog (updateServerState identity state netId st) \<noteq> mPrivateDnsLog st \<longrightarrow>
      (\<exists>server. server_at st netId identity = Some server \<and>
         server_at (updateServerState identity state netId st) netId identity =
           Some (server\<lparr>mValidation := state\<rparr>) \<and>
         mPrivateDnsLog (updateServerState identity state netId st) =
           mPrivateDnsLog st @ [RecordEntry netId identity state]))"
proof (cases "getPrivateDnsLocked st identity netId")
  case (Inl e)
  then have none: "server_at st netId identity = None"
    using getPrivateDnsLocked_missing by blast
  from Inl show ?thesis
    by (simp add: none updateServerState_def notifyValidationStateUpdate_def)
next
  case (Inr server)
  then have some: "server_at st netId identity = Some server"
    by (simp add: getPrivateDnsLocked_server_at)
  have "mPrivateDnsLog (updateServerState identity state netId st) =
          mPrivateDnsLog st @ [RecordEntry netId identity state]"
    using Inr
    by (simp add: updateServerState_def Let_def notifyValidationStateUpdate_def
        modifyServer_def split: option.splits)
  then show ?thesis
    by (simp add: some server_at_updateServerState setValidationState_def)
qed

theorem updateServerState_missing_server_witness:
  "updateServerState (identity_example ''8.8.8.8'') success 5
     (state_example STRICT
        [(identity_example ''1.1.1.1'', server_example ''1.1.1.1'' in_process True)]) =
   (state_example STRICT
        [(identity_example ''1.1.1.1'', server_example ''1.1.1.1'' in_process True)])
     \<lparr>observerCalls := [(''8.8.8.8'', fail, 5)]\<rparr> \<and>
   server_at
     (updateServerState (identity_example ''1.1.1.1'') success 5
        (state_example STRICT
           [(identity_example ''1.1.1.1'', server_example ''1.1.1.1'' in_process True)]))
     5 (identity_example ''1.1.1.1'') = Some (server_example ''1.1.1.1'' success True)"
proof -
  let ?k = "identity_example ''1.1.1.1''"
  let ?st = "state_example STRICT [(?k, server_example ''1.1.1.1'' in_process True)]"
  have none: "server_at ?st 5 (identity_example ''8.8.8.8'') = None"
    by (simp add: state_example_def server_at_def identity_example_def)
  have some: "server_at ?st 5 ?k = Some (server_example ''1.1.1.1'' in_process True)"
    by (simp add: state_example_def server_at_def)
  have log: "mPrivateDnsLog (updateServerState ?k success 5 ?st) \<noteq> mPrivateDnsLog ?st"
    by (simp add: updateServerState_def getPrivateDnsLocked_def modifyServer_def
        notifyValidationStateUpdate_def state_example_def Let_def)
  have obs: "mObserver ?st" "observerCalls ?st = []"
    by (simp_all add: state_example_def)
  have upd: "(server_example ''1.1.1.1'' in_process True)\<lparr>mValidation := success\<rparr> =
               server_example ''1.1.1.1'' success True"
    by (simp add: server_example_def)
  have ip8: "ip (sockaddr (identity_example ''8.8.8.8'')) = ''8.8.8.8''"
    by (simp add: identity_example_def)
  have "updateServerState (identity_example ''8.8.8.8'') success 5 ?st =
          ?st\<lparr>observerCalls :=
                (if mObserver ?st
                 then observerCalls ?st @ [(ip (sockaddr (identity_example ''8.8.8.8'')), fail, 5)]
                 else observerCalls ?st)\<rparr>"
    using updateServerState_missing_server [of ?st 5 "identity_example ''8.8.8.8''" success] none
    by blast
  then have first: "updateServerState (identity_example ''8.8.8.8'') success 5 ?st =
          ?st\<lparr>observerCalls := [(''8.8.8.8'', fail, 5)]\<rparr>"
    by (simp add: obs ip8)
  obtain server where "server_at ?st 5 ?k = Some server"
    and "server_at (updateServerState ?k success 5 ?st) 5 ?k = Some (server\<lparr>mValidation := success\<rparr>)"
    using updateServerState_missing_server [of ?st 5 ?k success] log by blast
  then have second: "server_at (updateServerState ?k success 5 ?st) 5 ?k =
                       Some (server_example ''1.1.1.1'' success True)"
    using some upd by simp
  from first second show ?thesis by blast
qed

end
